theory Spec2Isabelle
  imports Main "HOL-Library.Word"
begin

unbundle bit_operations_syntax

section \<open>The job list of the IK library: \<^verbatim>\<open>ik/src/joblist.c\<close>\<close>

text \<open>
  The theory embeds the six functions of \<^verbatim>\<open>joblist.c\<close> that rebuild a job list:
  \<^verbatim>\<open>find_all_effector_nodes\<close>, \<^verbatim>\<open>mark_nodes\<close>, \<^verbatim>\<open>new_solver\<close>,
  \<^verbatim>\<open>recurse_with_new_subtree\<close>, \<^verbatim>\<open>alloc_solvers\<close> and \<^verbatim>\<open>ik_joblist_update\<close>.

  \<^item> A node is a value of the datatype \<open>ik_node\<close>, its children in the order in which
    \<^verbatim>\<open>NODE_FOR_EACH\<close> visits them; a pointer to a node is the node together with the
    chain of its parents, nearest first (\<open>nodeptr\<close>), so that \<^verbatim>\<open>node->parent\<close> is the
    head of that chain and is \<^verbatim>\<open>NULL\<close> when it is empty. The node handed to
    \<^verbatim>\<open>ik_joblist_update\<close> is the root of its tree.
  \<^item> Every call that the source checks for an allocation failure asks the
    environment whether it fails: the environment holds the list of the coming
    answers (\<open>True\<close> is a failure; once the list is used up every call succeeds) and
    the levels of the messages logged so far.
  \<^item> A function that can stop the process (a failed \<^verbatim>\<open>assert\<close>, a null pointer read)
    returns an \<open>outcome\<close>; the \<^verbatim>\<open>while (1)\<close> loop of \<^verbatim>\<open>mark_nodes\<close> is a partial
    function in the option monad, \<open>None\<close> meaning that it never returns.
  \<^item> Freeing memory (\<^verbatim>\<open>ik_solver_free\<close>, the \<^verbatim>\<open>deinit\<close> calls) has no counterpart: a
    solver that is freed is simply no longer in the job list.
\<close>

subsection \<open>Data\<close>

datatype ik_marking =
    MARK_SECTION
  | MARK_BEGIN
  | MARK_END
  | MARK_BEGIN_AND_END
  | MARK_MINUS_ONE  \<comment> \<open>the initialiser \<^verbatim>\<open>-1\<close> of \<^verbatim>\<open>lookup_mark\<close>, not an enumerator\<close>

record ik_effector =
  chain_length :: nat

type_synonym ik_algorithm = nat  \<comment> \<open>an opaque handle\<close>

datatype ik_node =
  Node (guid: nat) (effector: "ik_effector option") (algorithm: "ik_algorithm option")
       (children: "ik_node list")

type_synonym nodeptr = "ik_node \<times> ik_node list"

fun parent :: "nodeptr \<Rightarrow> nodeptr option" where
  "parent (n, []) = None"
| "parent (n, p # ps) = Some (p, ps)"

record ik_subtree =
  root :: nodeptr
  leaves :: "nodeptr list"

record ik_solver =
  solver_subtree :: ik_subtree
  solver_algorithm :: ik_algorithm

record ik_joblist =
  solvers :: "ik_solver list"

type_synonym marks = "nat \<rightharpoonup> ik_marking"

datatype ik_log_level = IK_FATAL | IK_ERROR | IK_WARN | IK_OUT_OF_MEMORY

record env =
  failures :: "bool list"
  logged :: "ik_log_level list"

datatype 'a outcome = Returns 'a | Crashed

text \<open>
  The return codes of \<^verbatim>\<open>ik/retcodes.h\<close>, a header that is not part of the sources:
  their values are parameters of \<open>ik_joblist_update\<close>.
\<close>

record retcodes =
  IK_OK :: int
  IK_ERR_OUT_OF_MEMORY :: int
  IK_ERR_NO_EFFECTORS_FOUND :: int

subsection \<open>The collaborators: logging, vectors, the map of marks, subtrees, solvers\<close>

definition ik_log_printf :: "ik_log_level \<Rightarrow> env \<Rightarrow> env" where
  "ik_log_printf l e = e\<lparr>logged := logged e @ [l]\<rparr>"

definition ik_log_out_of_memory :: "env \<Rightarrow> env" where
  "ik_log_out_of_memory e = e\<lparr>logged := logged e @ [IK_OUT_OF_MEMORY]\<rparr>"

text \<open>One allocation: the first component tells whether it succeeded.\<close>

definition allocate :: "env \<Rightarrow> bool \<times> env" where
  "allocate e = (case failures e of [] \<Rightarrow> (True, e) | f # fs \<Rightarrow> (\<not> f, e\<lparr>failures := fs\<rparr>))"

text \<open>
  Modelled from the spec: the vector and the ordered map of the cstructures library
  (\<^verbatim>\<open>cstructures/vector.h\<close>, \<^verbatim>\<open>btree.h\<close>), whose sources are missing. "Allocation
  failure (any map/sequence growth fails)": initialising and growing can fail, and a
  failed call leaves the container as it was.
\<close>

definition vector_init :: "env \<Rightarrow> bool \<times> env" where
  "vector_init e = allocate e"

definition vector_push :: "env \<Rightarrow> 'a list \<Rightarrow> 'a \<Rightarrow> bool \<times> env \<times> 'a list" where
  "vector_push e v x = (case allocate e of (ok, e') \<Rightarrow> (ok, e', if ok then v @ [x] else v))"

definition btree_init :: "env \<Rightarrow> bool \<times> env" where
  "btree_init e = allocate e"

datatype btree_status = BTREE_EXISTS | BTREE_NOT_FOUND | BTREE_OOM

definition btree_insert_or_get ::
  "env \<Rightarrow> marks \<Rightarrow> nat \<Rightarrow> ik_marking \<Rightarrow> btree_status \<times> env \<times> marks" where
  "btree_insert_or_get e m k v =
     (case m k of
        Some _ \<Rightarrow> (BTREE_EXISTS, e, m)
      | None \<Rightarrow> (case allocate e of
                  (True, e') \<Rightarrow> (BTREE_NOT_FOUND, e', m(k \<mapsto> v))
                | (False, e') \<Rightarrow> (BTREE_OOM, e', m)))"

definition btree_find :: "marks \<Rightarrow> nat \<Rightarrow> ik_marking option" where
  "btree_find m k = m k"

text \<open>
  Modelled from the spec: \<^verbatim>\<open>ik_subtree_init\<close> (\<^verbatim>\<open>ik/subtree.h\<close>) and
  \<^verbatim>\<open>ik_solver_create\<close> (\<^verbatim>\<open>ik/solver.h\<close>), whose sources are missing. A subtree is "a
  root node reference plus an ordered sequence of leaf node references"; the solver
  factory is "create(subtree, algorithm) -> SolverJob | failure", and a solver job is
  "constructed from (Subtree, Algorithm)".
\<close>

definition ik_subtree_init :: "env \<Rightarrow> bool \<times> env" where
  "ik_subtree_init e = allocate e"

definition ik_solver_create ::
  "env \<Rightarrow> ik_subtree \<Rightarrow> ik_algorithm \<Rightarrow> ik_solver option \<times> env" where
  "ik_solver_create e st a =
     (case allocate e of
        (True, e') \<Rightarrow> (Some \<lparr>solver_subtree = st, solver_algorithm = a\<rparr>, e')
      | (False, e') \<Rightarrow> (None, e'))"

subsection \<open>\<^verbatim>\<open>find_all_effector_nodes\<close>\<close>

fun find_all_effector_nodes ::
      "env \<Rightarrow> nodeptr list \<Rightarrow> ik_node \<Rightarrow> ik_node list \<Rightarrow> int \<times> env \<times> nodeptr list"
  and find_all_effector_nodes_each ::
      "env \<Rightarrow> nodeptr list \<Rightarrow> ik_node list \<Rightarrow> ik_node list \<Rightarrow> int \<times> env \<times> nodeptr list"
where
  "find_all_effector_nodes e result (Node g ef al cs) anc =
     (case find_all_effector_nodes_each e result cs (Node g ef al cs # anc) of
        (r, e1, result1) \<Rightarrow>
          if r \<noteq> 0 then (- 1, e1, result1)
          else if ef \<noteq> None then
            (case vector_push e1 result1 (Node g ef al cs, anc) of
               (True, e2, result2) \<Rightarrow> (0, e2, result2)
             | (False, e2, result2) \<Rightarrow> (- 1, e2, result2))
          else (0, e1, result1))"
| "find_all_effector_nodes_each e result [] panc = (0, e, result)"
| "find_all_effector_nodes_each e result (c # cs) panc =
     (case find_all_effector_nodes e result c panc of
        (r, e1, result1) \<Rightarrow>
          if r \<noteq> 0 then (- 1, e1, result1)
          else find_all_effector_nodes_each e1 result1 cs panc)"

subsection \<open>\<^verbatim>\<open>mark_nodes\<close>\<close>

definition is_end_of_chain :: "int \<Rightarrow> nodeptr \<Rightarrow> bool" where
  "is_end_of_chain chain_length_counter node =
     (chain_length_counter = 0 \<or> parent node = None)"

definition has_children :: "nodeptr \<Rightarrow> bool" where
  "has_children node = (length (children (fst node)) > 0)"

definition has_algorithm :: "nodeptr \<Rightarrow> bool" where
  "has_algorithm node = (algorithm (fst node) \<noteq> None)"

definition has_effector :: "nodeptr \<Rightarrow> bool" where
  "has_effector node = (effector (fst node) \<noteq> None)"

definition lookup_mark :: "ik_marking list" where
  "lookup_mark =
     [MARK_MINUS_ONE,
      MARK_MINUS_ONE,
      MARK_SECTION,
      MARK_BEGIN,
      MARK_END,
      MARK_END,
      MARK_BEGIN_AND_END,
      MARK_BEGIN_AND_END,
      MARK_MINUS_ONE,
      MARK_MINUS_ONE,
      MARK_SECTION,
      MARK_BEGIN,
      MARK_BEGIN,
      MARK_BEGIN_AND_END,
      MARK_BEGIN_AND_END,
      MARK_BEGIN_AND_END]"

text \<open>The index into the table, from the four tests in the order the source shifts them.\<close>

definition mark_idx_of :: "bool \<Rightarrow> bool \<Rightarrow> bool \<Rightarrow> bool \<Rightarrow> 8 word" where
  "mark_idx_of end_of_chain has_chld has_eff has_alg =
     (push_bit 0 (of_bool end_of_chain)) OR
     (push_bit 1 (of_bool has_chld)) OR
     (push_bit 2 (of_bool has_eff)) OR
     (push_bit 3 (of_bool has_alg))"

definition mark_idx :: "int \<Rightarrow> nodeptr \<Rightarrow> 8 word" where
  "mark_idx chain_length_counter node =
     mark_idx_of (is_end_of_chain chain_length_counter node) (has_children node)
       (has_effector node) (has_algorithm node)"

text \<open>
  The second \<^verbatim>\<open>switch\<close> of the loop body: the mark is inserted, or merged into the one
  that is there. The first component is \<open>False\<close> on the \<^verbatim>\<open>default\<close> branch, which
  returns \<open>-1\<close>.
\<close>

definition store_mark :: "env \<Rightarrow> marks \<Rightarrow> nat \<Rightarrow> ik_marking \<Rightarrow> bool \<times> env \<times> marks" where
  "store_mark e marked g new_mark =
     (case btree_insert_or_get e marked g new_mark of
        (BTREE_EXISTS, e1, m1) \<Rightarrow>
          (True, e1, if new_mark = MARK_SECTION then m1(g \<mapsto> MARK_SECTION) else m1)
      | (BTREE_NOT_FOUND, e1, m1) \<Rightarrow> (True, e1, m1)
      | (BTREE_OOM, e1, m1) \<Rightarrow> (False, ik_log_out_of_memory e1, m1))"

text \<open>
  The \<^verbatim>\<open>while (1)\<close> loop for one effector node. The result \<open>0\<close> is the \<^verbatim>\<open>break\<close>, the
  result \<open>-1\<close> a \<^verbatim>\<open>return -1\<close> from inside the loop. The body assigns neither
  \<^verbatim>\<open>node\<close> nor \<^verbatim>\<open>chain_length_counter\<close>, so the next round starts with the same two.
\<close>

partial_function (option) mark_chain ::
  "env \<Rightarrow> marks \<Rightarrow> nodeptr \<Rightarrow> int \<Rightarrow> (int \<times> env \<times> marks) option"
where
  "mark_chain e marked node chain_length_counter =
     (let idx = mark_idx chain_length_counter node;
          new_mark = lookup_mark ! unat idx
      in if idx \<in> {0, 1, 8, 9} then Some (- 1, ik_log_printf IK_FATAL e, marked)
         else
           (case store_mark (if idx \<in> {10, 11, 12} then ik_log_printf IK_WARN e else e)
                   marked (guid (fst node)) new_mark of
              (stored, e1, marked1) \<Rightarrow>
                if \<not> stored then Some (- 1, e1, marked1)
                else if chain_length_counter = 0 \<or> parent node = None then Some (0, e1, marked1)
                else mark_chain e1 marked1 node chain_length_counter))"

declare mark_chain.simps [code]

fun mark_nodes ::
  "env \<Rightarrow> marks \<Rightarrow> nodeptr list \<Rightarrow> (int \<times> env \<times> marks) outcome option"
where
  "mark_nodes e marked [] = Some (Returns (0, e, marked))"
| "mark_nodes e marked (node # rest) =
     (case effector (fst node) of
        None \<Rightarrow> Some Crashed
      | Some eff \<Rightarrow>
          (case mark_chain e marked node
                  (if int (chain_length eff) \<noteq> 0 then int (chain_length eff) else - 1) of
             None \<Rightarrow> None
           | Some (r, e1, marked1) \<Rightarrow>
               if r \<noteq> 0 then Some (Returns (- 1, e1, marked1))
               else mark_nodes e1 marked1 rest))"

subsection \<open>\<^verbatim>\<open>new_solver\<close>\<close>

text \<open>The \<^verbatim>\<open>for\<close> loop: \<open>None\<close> is the \<^verbatim>\<open>NULL\<close> that \<^verbatim>\<open>algorithm\<close> starts with.\<close>

fun find_algorithm :: "ik_node \<Rightarrow> ik_node list \<Rightarrow> ik_algorithm option" where
  "find_algorithm node [] = None"
| "find_algorithm node (p # ps) =
     (case algorithm node of
        Some a \<Rightarrow> Some a
      | None \<Rightarrow> find_algorithm p ps)"

definition new_solver :: "env \<Rightarrow> ik_subtree \<Rightarrow> ik_solver option \<times> env" where
  "new_solver e subtree =
     (case find_algorithm (fst (root subtree)) (snd (root subtree)) of
        None \<Rightarrow> (None, ik_log_printf IK_ERROR e)
      | Some a \<Rightarrow> ik_solver_create e subtree a)"

subsection \<open>\<^verbatim>\<open>alloc_solvers\<close> and \<^verbatim>\<open>recurse_with_new_subtree\<close>\<close>

text \<open>
  \<^verbatim>\<open>current_subtree\<close> is a pointer that may be \<^verbatim>\<open>NULL\<close>: an \<open>ik_subtree option\<close>, handed
  back with the leaves that were pushed. \<open>alloc_solvers_each\<close> is the loop over the
  children, which both functions have: it stops with \<open>-1\<close> at the first child for
  which \<^verbatim>\<open>alloc_solvers\<close> does not return \<open>0\<close>.
\<close>

fun alloc_solvers ::
      "env \<Rightarrow> ik_joblist \<Rightarrow> ik_subtree option \<Rightarrow> ik_node \<Rightarrow> ik_node list \<Rightarrow> marks \<Rightarrow>
       (int \<times> env \<times> ik_joblist \<times> ik_subtree option) outcome"
  and alloc_solvers_each ::
      "env \<Rightarrow> ik_joblist \<Rightarrow> ik_subtree option \<Rightarrow> ik_node list \<Rightarrow> ik_node list \<Rightarrow> marks \<Rightarrow>
       (int \<times> env \<times> ik_joblist \<times> ik_subtree option) outcome"
  and recurse_with_new_subtree ::
      "env \<Rightarrow> ik_joblist \<Rightarrow> ik_node \<Rightarrow> ik_node list \<Rightarrow> marks \<Rightarrow>
       (int \<times> env \<times> ik_joblist) outcome"
where
  "alloc_solvers e joblist current_subtree (Node g ef al cs) anc marked_nodes =
     (case btree_find marked_nodes g of
        None \<Rightarrow> Returns (0, e, joblist, current_subtree)
      | Some MARK_END \<Rightarrow>
          (case current_subtree of
             None \<Rightarrow> Crashed
           | Some st \<Rightarrow>
               (case vector_push e (leaves st) (Node g ef al cs, anc) of
                  (False, e1, lv) \<Rightarrow> Returns (- 1, e1, joblist, Some (st\<lparr>leaves := lv\<rparr>))
                | (True, e1, lv) \<Rightarrow>
                    alloc_solvers_each e1 joblist (Some (st\<lparr>leaves := lv\<rparr>)) cs
                      (Node g ef al cs # anc) marked_nodes))
      | Some MARK_SECTION \<Rightarrow>
          alloc_solvers_each e joblist current_subtree cs (Node g ef al cs # anc) marked_nodes
      | Some MARK_BEGIN_AND_END \<Rightarrow>
          (case current_subtree of
             None \<Rightarrow> Crashed
           | Some st \<Rightarrow>
               (case vector_push e (leaves st) (Node g ef al cs, anc) of
                  (False, e1, lv) \<Rightarrow> Returns (- 1, e1, joblist, Some (st\<lparr>leaves := lv\<rparr>))
                | (True, e1, lv) \<Rightarrow>
                    (case recurse_with_new_subtree e1 joblist (Node g ef al cs) anc
                            marked_nodes of
                       Crashed \<Rightarrow> Crashed
                     | Returns (r, e2, joblist2) \<Rightarrow>
                         Returns (r, e2, joblist2, Some (st\<lparr>leaves := lv\<rparr>)))))
      | Some MARK_BEGIN \<Rightarrow>
          (case recurse_with_new_subtree e joblist (Node g ef al cs) anc marked_nodes of
             Crashed \<Rightarrow> Crashed
           | Returns (r, e2, joblist2) \<Rightarrow> Returns (r, e2, joblist2, current_subtree))
      | Some MARK_MINUS_ONE \<Rightarrow> Returns (0, e, joblist, current_subtree))"
| "alloc_solvers_each e joblist current_subtree [] panc marked_nodes =
     Returns (0, e, joblist, current_subtree)"
| "alloc_solvers_each e joblist current_subtree (child # cs) panc marked_nodes =
     (case alloc_solvers e joblist current_subtree child panc marked_nodes of
        Crashed \<Rightarrow> Crashed
      | Returns (r, e1, joblist1, subtree1) \<Rightarrow>
          if r \<noteq> 0 then Returns (- 1, e1, joblist1, subtree1)
          else alloc_solvers_each e1 joblist1 subtree1 cs panc marked_nodes)"
| "recurse_with_new_subtree e joblist (Node g ef al cs) anc marked_nodes =
     (case ik_subtree_init e of
        (False, e1) \<Rightarrow> Returns (- 1, e1, joblist)
      | (True, e1) \<Rightarrow>
          (case alloc_solvers_each e1 joblist
                  (Some \<lparr>root = (Node g ef al cs, anc), leaves = []\<rparr>) cs
                  (Node g ef al cs # anc) marked_nodes of
             Crashed \<Rightarrow> Crashed
           | Returns (r, e2, joblist2, subtree2) \<Rightarrow>
               if r \<noteq> 0 then Returns (- 1, e2, joblist2)
               else
                 (case subtree2 of
                    None \<Rightarrow> Crashed
                  | Some subtree \<Rightarrow>
                      (case new_solver e2 subtree of
                         (None, e3) \<Rightarrow> Returns (- 1, e3, joblist2)
                       | (Some solver, e3) \<Rightarrow>
                           (case vector_push e3 (solvers joblist2) solver of
                              (False, e4, sv) \<Rightarrow> Returns (- 1, e4, joblist2\<lparr>solvers := sv\<rparr>)
                            | (True, e4, sv) \<Rightarrow> Returns (0, e4, joblist2\<lparr>solvers := sv\<rparr>))))))"

subsection \<open>\<^verbatim>\<open>ik_joblist_update\<close>\<close>

definition ik_joblist_update ::
  "retcodes \<Rightarrow> env \<Rightarrow> ik_joblist \<Rightarrow> ik_node \<Rightarrow> (int \<times> env \<times> ik_joblist) outcome option"
where
  "ik_joblist_update rc e joblist tree_root =
     (case vector_init e of
        (False, e1) \<Rightarrow>
          Some (Returns (IK_ERR_OUT_OF_MEMORY rc, ik_log_out_of_memory e1, joblist))
      | (True, e1) \<Rightarrow>
          (case find_all_effector_nodes e1 [] tree_root [] of
             (status, e2, effector_nodes) \<Rightarrow>
               if status \<noteq> IK_OK rc then Some (Returns (status, e2, joblist))
               else if length effector_nodes = 0 then
                 Some (Returns (IK_ERR_NO_EFFECTORS_FOUND rc, ik_log_printf IK_WARN e2, joblist))
               else
                 (case btree_init e2 of
                    (False, e3) \<Rightarrow>
                      Some (Returns (IK_ERR_OUT_OF_MEMORY rc, ik_log_out_of_memory e3, joblist))
                  | (True, e3) \<Rightarrow>
                      (case mark_nodes e3 Map.empty effector_nodes of
                         None \<Rightarrow> None
                       | Some Crashed \<Rightarrow> Some Crashed
                       | Some (Returns (status1, e4, marked_nodes)) \<Rightarrow>
                           if status1 \<noteq> IK_OK rc then Some (Returns (status1, e4, joblist))
                           else
                             (case alloc_solvers e4 (joblist\<lparr>solvers := []\<rparr>) None tree_root []
                                     marked_nodes of
                                Crashed \<Rightarrow> Some Crashed
                              | Returns (status2, e5, joblist2, _) \<Rightarrow>
                                  if status2 \<noteq> IK_OK rc then Some (Returns (status2, e5, joblist2))
                                  else Some (Returns (IK_OK rc, e5, joblist2)))))))"

subsection \<open>Notions used in the statements\<close>

text \<open>
  The effector nodes of a tree in the order in which \<^verbatim>\<open>find_all_effector_nodes\<close> pushes
  them (children first), and whether a tree holds an effector at all.
\<close>

fun effector_nodes :: "ik_node \<Rightarrow> ik_node list \<Rightarrow> nodeptr list"
  and effector_nodes_each :: "ik_node list \<Rightarrow> ik_node list \<Rightarrow> nodeptr list"
where
  "effector_nodes (Node g ef al cs) anc =
     effector_nodes_each cs (Node g ef al cs # anc) @
     (if ef \<noteq> None then [(Node g ef al cs, anc)] else [])"
| "effector_nodes_each [] panc = []"
| "effector_nodes_each (c # cs) panc = effector_nodes c panc @ effector_nodes_each cs panc"

fun any_effector :: "ik_node \<Rightarrow> bool" where
  "any_effector (Node g ef al cs) = (ef \<noteq> None \<or> (\<exists>c \<in> set cs. any_effector c))"

text \<open>
  The state in which a round of the marking loop leads to the same round again: the
  node has a parent, the counter is not zero, and the node, which carries an effector,
  has its mark already.
\<close>

definition spins :: "marks \<Rightarrow> nodeptr \<Rightarrow> int \<Rightarrow> bool" where
  "spins marked node c =
     (parent node \<noteq> None \<and> c \<noteq> 0 \<and> has_effector node \<and> marked (guid (fst node)) \<noteq> None)"

text \<open>
  The table of the specification, row by row, in its column order \<open>E\<close>, \<open>C\<close>, \<open>F\<close>,
  \<open>A\<close>; \<open>None\<close> is its result FATAL.
\<close>

fun spec_mark_table :: "bool \<Rightarrow> bool \<Rightarrow> bool \<Rightarrow> bool \<Rightarrow> ik_marking option" where
  "spec_mark_table False False False False = None"
| "spec_mark_table True  False False False = None"
| "spec_mark_table False True  False False = Some MARK_SECTION"
| "spec_mark_table True  True  False False = Some MARK_BEGIN"
| "spec_mark_table False False True  False = Some MARK_END"
| "spec_mark_table True  False True  False = Some MARK_END"
| "spec_mark_table False True  True  False = Some MARK_BEGIN_AND_END"
| "spec_mark_table True  True  True  False = Some MARK_BEGIN_AND_END"
| "spec_mark_table False False False True  = None"
| "spec_mark_table True  False False True  = None"
| "spec_mark_table False True  False True  = Some MARK_SECTION"
| "spec_mark_table True  True  False True  = Some MARK_BEGIN"
| "spec_mark_table False False True  True  = Some MARK_BEGIN"
| "spec_mark_table True  False True  True  = Some MARK_BEGIN_AND_END"
| "spec_mark_table False True  True  True  = Some MARK_BEGIN_AND_END"
| "spec_mark_table True  True  True  True  = Some MARK_BEGIN_AND_END"

text \<open>
  A linear chain whose only effector sits on the leaf and has the chain length \<open>0\<close>
  (unbounded); identifiers and algorithms are arbitrary.
\<close>

fun linear_chain :: "ik_node \<Rightarrow> bool" where
  "linear_chain (Node g ef al []) = (ef = Some \<lparr>chain_length = 0\<rparr>)"
| "linear_chain (Node g ef al [c]) = (ef = None \<and> linear_chain c)"
| "linear_chain (Node g ef al (c # d # cs)) = False"

text \<open>
  The identifiers of a tree, the nodes of a tree, and the proper descendants of a node.
  A job is nested in another when its subtree's root is a proper descendant of the
  other's.
\<close>

fun guids :: "ik_node \<Rightarrow> nat list" where
  "guids (Node g ef al cs) = g # concat (map guids cs)"

fun subnodes :: "ik_node \<Rightarrow> ik_node set" where
  "subnodes (Node g ef al cs) = insert (Node g ef al cs) (\<Union>c \<in> set cs. subnodes c)"

definition descendants :: "ik_node \<Rightarrow> ik_node set" where
  "descendants n = (\<Union>c \<in> set (children n). subnodes c)"

definition solver_root :: "ik_solver \<Rightarrow> ik_node" where
  "solver_root s = fst (root (solver_subtree s))"

definition nested_in :: "ik_solver \<Rightarrow> ik_solver \<Rightarrow> bool" where
  "nested_in a b = (solver_root a \<in> descendants (solver_root b))"

text \<open>
  A list of jobs in which no job is nested in one that stands before it, and a job list
  that has grown by such a list of jobs with roots in \<open>S\<close>.
\<close>

fun ordered :: "ik_solver list \<Rightarrow> bool" where
  "ordered [] = True"
| "ordered (x # xs) = ((\<forall>y \<in> set xs. \<not> nested_in y x) \<and> ordered xs)"

definition grows :: "ik_node set \<Rightarrow> ik_joblist \<Rightarrow> ik_joblist \<Rightarrow> bool" where
  "grows S jl jl' =
     (\<exists>js. solvers jl' = solvers jl @ js \<and> solver_root ` set js \<subseteq> S \<and> ordered js)"

text \<open>
  An arm of four nodes with an algorithm on node 1 and effectors on nodes 2 and 3, a
  map of marks for it, and the two jobs that partitioning it gives.
\<close>

definition arm3 :: ik_node where
  "arm3 = Node 3 (Some \<lparr>chain_length = 1\<rparr>) None []"

definition arm2 :: ik_node where
  "arm2 = Node 2 (Some \<lparr>chain_length = 1\<rparr>) None [arm3]"

definition arm1 :: ik_node where
  "arm1 = Node 1 None (Some 7) [arm2]"

definition arm0 :: ik_node where
  "arm0 = Node 0 None None [arm1]"

definition arm_marks :: marks where
  "arm_marks = [0 \<mapsto> MARK_SECTION, 1 \<mapsto> MARK_BEGIN, 2 \<mapsto> MARK_BEGIN_AND_END, 3 \<mapsto> MARK_END]"

definition arm_inner :: ik_solver where
  "arm_inner =
     \<lparr>solver_subtree = \<lparr>root = (arm2, [arm1, arm0]), leaves = [(arm3, [arm2, arm1, arm0])]\<rparr>,
      solver_algorithm = 7\<rparr>"

definition arm_outer :: ik_solver where
  "arm_outer =
     \<lparr>solver_subtree = \<lparr>root = (arm1, [arm0]), leaves = [(arm2, [arm1, arm0])]\<rparr>,
      solver_algorithm = 7\<rparr>"

section \<open>Properties\<close>

subsection \<open>Allocation and the effector scan\<close>

lemma allocate_no_failures: "failures e = [] \<Longrightarrow> allocate e = (True, e)"
  by (simp add: allocate_def)

lemma vector_push_no_failures: "failures e = [] \<Longrightarrow> vector_push e v x = (True, e, v @ [x])"
  by (simp add: vector_push_def allocate_no_failures)

lemma find_all_no_failures:
  "failures e = [] \<Longrightarrow>
     find_all_effector_nodes e res n anc = (0, e, res @ effector_nodes n anc)"
  "failures e = [] \<Longrightarrow>
     find_all_effector_nodes_each e res cs panc = (0, e, res @ effector_nodes_each cs panc)"
  by (induction e res n anc and e res cs panc
      rule: find_all_effector_nodes_find_all_effector_nodes_each.induct)
     (simp_all add: vector_push_no_failures)

lemma find_all_result:
  "find_all_effector_nodes e res n anc = (r, e', res') \<Longrightarrow>
     (r = 0 \<or> r = - 1) \<and> (r = 0 \<longrightarrow> res' = res @ effector_nodes n anc)"
  "find_all_effector_nodes_each e res cs panc = (r, e', res') \<Longrightarrow>
     (r = 0 \<or> r = - 1) \<and> (r = 0 \<longrightarrow> res' = res @ effector_nodes_each cs panc)"
proof (induction e res n anc and e res cs panc arbitrary: r e' res' and r e' res'
      rule: find_all_effector_nodes_find_all_effector_nodes_each.induct)
  case (1 e result g ef al cs anc)
  obtain r1 e1 res1 where each:
    "find_all_effector_nodes_each e result cs (Node g ef al cs # anc) = (r1, e1, res1)"
    by (cases "find_all_effector_nodes_each e result cs (Node g ef al cs # anc)") auto
  from "1.IH" [OF each] "1.prems" each show ?case
    by (auto simp: vector_push_def split: if_splits prod.splits bool.splits)
next
  case (2 e result panc)
  then show ?case by simp
next
  case (3 e result c cs panc)
  obtain r1 e1 res1 where one: "find_all_effector_nodes e result c panc = (r1, e1, res1)"
    by (cases "find_all_effector_nodes e result c panc") auto
  show ?case
  proof (cases "r1 = 0")
    case True
    with "3.prems" one have rest: "find_all_effector_nodes_each e1 res1 cs panc = (r, e', res')"
      by simp
    from "3.IH"(1) [OF one] True have "res1 = result @ effector_nodes c panc" by simp
    with "3.IH"(2) [OF one [symmetric] refl _ rest] True show ?thesis by simp
  next
    case False
    with "3.prems" one show ?thesis by simp
  qed
qed

lemma failures_log [simp]:
  "failures (ik_log_printf l e) = failures e"
  "failures (ik_log_out_of_memory e) = failures e"
  by (simp_all add: ik_log_printf_def ik_log_out_of_memory_def)

lemma allocate_failed: "allocate e = (False, e1) \<Longrightarrow> failures e \<noteq> []"
  by (auto simp: allocate_def split: list.splits)

lemma effector_nodes_props:
  "p \<in> set (effector_nodes n anc) \<Longrightarrow>
     effector (fst p) \<noteq> None \<and> length anc \<le> length (snd p)"
  "p \<in> set (effector_nodes_each cs panc) \<Longrightarrow>
     effector (fst p) \<noteq> None \<and> length panc \<le> length (snd p)"
  by (induction n anc and cs panc arbitrary: p and p rule: effector_nodes_effector_nodes_each.induct)
     (fastforce split: if_splits)+

lemma effector_nodes_empty:
  "(effector_nodes n anc = []) = (\<not> any_effector n)"
  "(effector_nodes_each cs panc = []) = (\<not> (\<exists>c \<in> set cs. any_effector c))"
  by (induction n anc and cs panc rule: effector_nodes_effector_nodes_each.induct) auto

subsection \<open>The marking loop\<close>

lemma idx_effector: "has_effector node \<Longrightarrow> mark_idx c node \<notin> {0, 1, 8, 9}"
  by (cases "is_end_of_chain c node"; cases "has_children node"; cases "has_algorithm node")
     (simp_all add: mark_idx_def mark_idx_of_def)

lemma idx_root_effector:
  "has_effector node \<Longrightarrow> parent node = None \<Longrightarrow> mark_idx c node \<in> {5, 7, 13, 15}"
  by (cases "has_children node"; cases "has_algorithm node")
     (simp_all add: mark_idx_def mark_idx_of_def is_end_of_chain_def)

lemma store_mark_exists:
  "marked g = Some old \<Longrightarrow>
   store_mark e marked g new_mark =
     (True, e, if new_mark = MARK_SECTION then marked(g \<mapsto> MARK_SECTION) else marked)"
  by (simp add: store_mark_def btree_insert_or_get_def)

lemma store_mark_new:
  "marked g = None \<Longrightarrow>
   store_mark e marked g new_mark =
     (case allocate e of
        (True, e1) \<Rightarrow> (True, e1, marked(g \<mapsto> new_mark))
      | (False, e1) \<Rightarrow> (False, ik_log_out_of_memory e1, marked))"
  by (simp add: store_mark_def btree_insert_or_get_def split: prod.splits bool.splits)

lemma mark_chain_spins:
  assumes "mark_chain e marked node c = Some r"
  shows "\<not> spins marked node c"
proof (rule mark_chain.raw_induct [where P = "\<lambda>e marked node c r. \<not> spins marked node c", OF _ assms])
  fix f :: "env \<Rightarrow> marks \<Rightarrow> nodeptr \<Rightarrow> int \<Rightarrow> (int \<times> env \<times> marks) option"
    and e :: env and marked :: marks and node :: nodeptr and c :: int and r :: "int \<times> env \<times> marks"
  assume IH: "\<And>e marked node c r. f e marked node c = Some r \<Longrightarrow> \<not> spins marked node c"
  assume body: "(let idx = mark_idx c node; new_mark = lookup_mark ! unat idx
      in if idx \<in> {0, 1, 8, 9} then Some (- 1, ik_log_printf IK_FATAL e, marked)
         else
           (case store_mark (if idx \<in> {10, 11, 12} then ik_log_printf IK_WARN e else e)
                   marked (guid (fst node)) new_mark of
              (stored, e1, marked1) \<Rightarrow>
                if \<not> stored then Some (- 1, e1, marked1)
                else if c = 0 \<or> parent node = None then Some (0, e1, marked1)
                else f e1 marked1 node c)) = Some r"
  show "\<not> spins marked node c"
  proof
    assume inv: "spins marked node c"
    then obtain old where old: "marked (guid (fst node)) = Some old"
      by (auto simp: spins_def)
    from inv have nf: "mark_idx c node \<notin> {0, 1, 8, 9}"
      by (intro idx_effector) (simp add: spins_def)
    let ?m = "lookup_mark ! unat (mark_idx c node)"
    let ?marked' = "if ?m = MARK_SECTION then marked(guid (fst node) \<mapsto> MARK_SECTION) else marked"
    let ?e' = "if mark_idx c node \<in> {10, 11, 12} then ik_log_printf IK_WARN e else e"
    from inv have go: "\<not> (c = 0 \<or> parent node = None)" by (simp add: spins_def)
    from body nf go have "f ?e' ?marked' node c = Some r"
      by (simp add: Let_def store_mark_exists [of marked "guid (fst node)" old] old del: insert_iff)
    from IH [OF this] have "\<not> spins ?marked' node c" .
    with inv show False by (simp add: spins_def split: if_splits)
  qed
qed

lemma mark_chain_nonroot:
  assumes run: "mark_chain e marked node c = Some r"
    and up: "parent node \<noteq> None" and eff: "has_effector node" and c: "c \<noteq> 0"
  shows "fst r = - 1 \<and> failures e \<noteq> []"
proof -
  let ?g = "guid (fst node)"
  let ?m = "lookup_mark ! unat (mark_idx c node)"
  let ?e' = "if mark_idx c node \<in> {10, 11, 12} then ik_log_printf IK_WARN e else e"
  have nf: "mark_idx c node \<notin> {0, 1, 8, 9}" by (rule idx_effector [OF eff])
  have body: "(case store_mark ?e' marked ?g ?m of
                 (stored, e1, marked1) \<Rightarrow>
                   if \<not> stored then Some (- 1, e1, marked1)
                   else mark_chain e1 marked1 node c) = Some r"
  proof -
    from up obtain p where p: "parent node = Some p" by auto
    have "mark_chain e marked node c =
            (case store_mark ?e' marked ?g ?m of
               (stored, e1, marked1) \<Rightarrow>
                 if \<not> stored then Some (- 1, e1, marked1)
                 else mark_chain e1 marked1 node c)"
      using nf c by (subst mark_chain.simps) (simp add: Let_def p split: prod.splits del: insert_iff)
    with run show ?thesis by simp
  qed
  show ?thesis
  proof (cases "marked ?g")
    case (Some old)
    let ?marked' = "if ?m = MARK_SECTION then marked(?g \<mapsto> MARK_SECTION) else marked"
    from body have "mark_chain ?e' ?marked' node c = Some r"
      by (simp add: store_mark_exists [of marked ?g old] Some)
    from mark_chain_spins [OF this] up eff c Some show ?thesis
      by (simp add: spins_def split: if_splits)
  next
    case None
    obtain ok e1 where al: "allocate ?e' = (ok, e1)" by (cases "allocate ?e'") auto
    show ?thesis
    proof (cases ok)
      case True
      with body None al have "mark_chain e1 (marked(?g \<mapsto> ?m)) node c = Some r"
        by (simp add: store_mark_new)
      from mark_chain_spins [OF this] up eff c show ?thesis by (simp add: spins_def)
    next
      case False
      with body None al have "fst r = - 1" by (auto simp: store_mark_new)
      moreover from al False have "failures ?e' \<noteq> []" by (auto dest: allocate_failed)
      then have "failures e \<noteq> []" by (simp split: if_splits)
      ultimately show ?thesis by simp
    qed
  qed
qed

lemma mark_chain_root:
  assumes top: "parent node = None" and eff: "has_effector node"
    and new: "marked (guid (fst node)) = None"
  shows "mark_chain e marked node c =
           (case allocate e of
              (True, e1) \<Rightarrow>
                Some (0, e1, marked(guid (fst node) \<mapsto> lookup_mark ! unat (mark_idx c node)))
            | (False, e1) \<Rightarrow> Some (- 1, ik_log_out_of_memory e1, marked))"
proof -
  from idx_root_effector [OF eff top, of c]
  have "mark_idx c node \<notin> {0, 1, 8, 9} \<and> mark_idx c node \<notin> {10, 11, 12}"
    by (auto simp del: One_nat_def)
  then show ?thesis using top new
    by (subst mark_chain.simps)
       (simp add: Let_def store_mark_new split: prod.splits bool.splits del: insert_iff)
qed

lemma find_all_no_effectors:
  "\<not> any_effector n \<Longrightarrow> find_all_effector_nodes e res n anc = (0, e, res)"
  "\<not> (\<exists>c \<in> set cs. any_effector c) \<Longrightarrow> find_all_effector_nodes_each e res cs panc = (0, e, res)"
  by (induction e res n anc and e res cs panc
      rule: find_all_effector_nodes_find_all_effector_nodes_each.induct) simp_all

lemma parent_nonroot: "snd p \<noteq> [] \<Longrightarrow> parent p \<noteq> None"
  by (cases p; cases "snd p") auto

lemma initial_counter: "(if int n \<noteq> 0 then int n else - 1) \<noteq> 0"
  by simp

lemma mark_nodes_nonroot_head:
  assumes run: "mark_nodes e marked (node # rest) = Some (Returns (s, e', m'))"
    and up: "parent node \<noteq> None"
  shows "s = - 1 \<and> failures e \<noteq> []"
proof -
  from run obtain eff where eff: "effector (fst node) = Some eff"
    by (cases "effector (fst node)") auto
  let ?c = "if int (chain_length eff) \<noteq> 0 then int (chain_length eff) else - 1"
  from run eff obtain r e1 m1 where chain: "mark_chain e marked node ?c = Some (r, e1, m1)"
    by (cases "mark_chain e marked node ?c") auto
  from eff have "has_effector node" by (simp add: has_effector_def)
  from mark_chain_nonroot [OF chain up this initial_counter]
  have r: "r = - 1" and f: "failures e \<noteq> []" by simp_all
  from run eff chain r have "s = - 1" by simp
  with f show ?thesis by simp
qed

lemma mark_nodes_nonroot_diverges:
  assumes up: "parent node \<noteq> None" and eff: "effector (fst node) \<noteq> None"
    and nf: "failures e = []"
  shows "mark_nodes e marked (node # rest) = None"
proof -
  from eff obtain ef where ef: "effector (fst node) = Some ef" by auto
  let ?c = "if int (chain_length ef) \<noteq> 0 then int (chain_length ef) else - 1"
  have "mark_chain e marked node ?c = None"
  proof (cases "mark_chain e marked node ?c")
    case (Some r)
    from ef have "has_effector node" by (simp add: has_effector_def)
    from mark_chain_nonroot [OF Some up this initial_counter] nf show ?thesis by simp
  qed simp
  with ef show ?thesis by simp
qed

lemma effector_below_diverges:
  assumes below: "\<exists>c \<in> set (children tree_root). any_effector c" and nf: "failures e = []"
  shows "mark_nodes e marked (effector_nodes tree_root []) = None"
proof -
  obtain g ef al cs where n: "tree_root = Node g ef al cs" by (cases tree_root)
  from below n have "effector_nodes_each cs [tree_root] \<noteq> []"
    by (simp add: effector_nodes_empty)
  then obtain x xs where each: "effector_nodes_each cs [tree_root] = x # xs"
    by (cases "effector_nodes_each cs [tree_root]") auto
  then have "x \<in> set (effector_nodes_each cs [tree_root])" by simp
  from effector_nodes_props(2) [OF this]
  have x: "effector (fst x) \<noteq> None" "snd x \<noteq> []" by auto
  from n each have "effector_nodes tree_root [] =
      x # (xs @ (if ef \<noteq> None then [(tree_root, [])] else []))" by simp
  with mark_nodes_nonroot_diverges [OF parent_nonroot [OF x(2)] x(1) nf] show ?thesis by simp
qed

lemma root_mark: "has_effector node \<Longrightarrow> parent node = None \<Longrightarrow>
   lookup_mark ! unat (mark_idx c node) \<in> {MARK_END, MARK_BEGIN_AND_END}"
  by (cases "has_children node"; cases "has_algorithm node")
     (simp_all add: mark_idx_def mark_idx_of_def is_end_of_chain_def lookup_mark_def)

lemma mark_nodes_root_alone:
  assumes eff: "effector tree_root \<noteq> None"
  shows "\<exists>c. mark_nodes e Map.empty [(tree_root, [])] =
     (case allocate e of
        (True, e1) \<Rightarrow>
          Some (Returns (0, e1, [guid tree_root \<mapsto> lookup_mark ! unat (mark_idx c (tree_root, []))]))
      | (False, e1) \<Rightarrow> Some (Returns (- 1, ik_log_out_of_memory e1, Map.empty)))"
proof -
  from eff obtain ef where ef: "effector tree_root = Some ef" by auto
  define c where "c = (if int (chain_length ef) \<noteq> 0 then int (chain_length ef) else - 1)"
  have "mark_chain e Map.empty (tree_root, []) c =
           (case allocate e of
              (True, e1) \<Rightarrow>
                Some (0, e1, [guid tree_root \<mapsto> lookup_mark ! unat (mark_idx c (tree_root, []))])
            | (False, e1) \<Rightarrow> Some (- 1, ik_log_out_of_memory e1, Map.empty))"
    using mark_chain_root [of "(tree_root, [])" Map.empty e c] eff
    by (simp add: has_effector_def split: prod.splits bool.splits)
  note chain = this
  have mn: "mark_nodes e Map.empty [(tree_root, [])] =
     (case mark_chain e Map.empty (tree_root, []) c of
        None \<Rightarrow> None
      | Some (r, e1, m1) \<Rightarrow>
          if r \<noteq> 0 then Some (Returns (- 1, e1, m1)) else Some (Returns (0, e1, m1)))"
    by (simp add: ef c_def split: option.splits)
  have "mark_nodes e Map.empty [(tree_root, [])] =
     (case allocate e of
        (True, e1) \<Rightarrow>
          Some (Returns (0, e1, [guid tree_root \<mapsto> lookup_mark ! unat (mark_idx c (tree_root, []))]))
      | (False, e1) \<Rightarrow> Some (Returns (- 1, ik_log_out_of_memory e1, Map.empty)))"
    unfolding mn chain by (simp split: prod.splits bool.splits)
  then show ?thesis ..
qed

lemma alloc_solvers_null_context:
  "m (guid n) \<in> {Some MARK_END, Some MARK_BEGIN_AND_END} \<Longrightarrow>
     alloc_solvers e jl None n anc m = Crashed"
  by (cases n) (auto simp: btree_find_def)

lemma marked_root_crashes:
  assumes run: "mark_nodes e Map.empty (effector_nodes tree_root []) = Some (Returns (0, e', m))"
    and some: "effector_nodes tree_root [] \<noteq> []"
  shows "alloc_solvers e2 jl None tree_root [] m = Crashed"
proof -
  obtain g ef al cs where n: "tree_root = Node g ef al cs" by (cases tree_root)
  define tail :: "nodeptr list" where "tail = (if ef \<noteq> None then [(tree_root, [])] else [])"
  have es: "effector_nodes tree_root [] = effector_nodes_each cs [tree_root] @ tail"
    by (simp add: n tail_def)
  have each: "effector_nodes_each cs [tree_root] = []"
  proof (rule ccontr)
    assume "effector_nodes_each cs [tree_root] \<noteq> []"
    then obtain x xs where xs: "effector_nodes_each cs [tree_root] = x # xs"
      by (cases "effector_nodes_each cs [tree_root]") auto
    then have "x \<in> set (effector_nodes_each cs [tree_root])" by simp
    from effector_nodes_props(2) [OF this] have x: "snd x \<noteq> []" by auto
    from run have "mark_nodes e Map.empty (x # (xs @ tail)) = Some (Returns (0, e', m))"
      unfolding es xs by (simp del: mark_nodes.simps)
    from mark_nodes_nonroot_head [OF this parent_nonroot [OF x]] show False by simp
  qed
  with some es have ef: "ef \<noteq> None" and es: "effector_nodes tree_root [] = [(tree_root, [])]"
    by (auto simp: tail_def split: if_splits)
  from ef n have eff: "effector tree_root \<noteq> None" by simp
  from mark_nodes_root_alone [OF eff, of e] obtain c where
    "mark_nodes e Map.empty [(tree_root, [])] =
     (case allocate e of
        (True, e1) \<Rightarrow>
          Some (Returns (0, e1, [guid tree_root \<mapsto> lookup_mark ! unat (mark_idx c (tree_root, []))]))
      | (False, e1) \<Rightarrow> Some (Returns (- 1, ik_log_out_of_memory e1, Map.empty)))" ..
  with run es have "m = [guid tree_root \<mapsto> lookup_mark ! unat (mark_idx c (tree_root, []))]"
    by (auto split: prod.splits bool.splits)
  moreover from eff have "lookup_mark ! unat (mark_idx c (tree_root, [])) \<in> {MARK_END, MARK_BEGIN_AND_END}"
    by (intro root_mark) (simp_all add: has_effector_def)
  ultimately have "m (guid tree_root) \<in> {Some MARK_END, Some MARK_BEGIN_AND_END}" by auto
  then show ?thesis by (rule alloc_solvers_null_context)
qed

subsection \<open>The rebuild as a whole\<close>

lemma update_no_failures:
  assumes nf: "failures e = []" and ok: "IK_OK rc = 0"
  shows "ik_joblist_update rc e jl tree_root =
    (if effector_nodes tree_root [] = [] then
       Some (Returns (IK_ERR_NO_EFFECTORS_FOUND rc, ik_log_printf IK_WARN e, jl))
     else
       (case mark_nodes e Map.empty (effector_nodes tree_root []) of
          None \<Rightarrow> None
        | Some Crashed \<Rightarrow> Some Crashed
        | Some (Returns (s1, e4, m)) \<Rightarrow>
            if s1 \<noteq> 0 then Some (Returns (s1, e4, jl))
            else
              (case alloc_solvers e4 (jl\<lparr>solvers := []\<rparr>) None tree_root [] m of
                 Crashed \<Rightarrow> Some Crashed
               | Returns (s2, e5, jl2, _) \<Rightarrow>
                   if s2 \<noteq> 0 then Some (Returns (s2, e5, jl2))
                   else Some (Returns (0, e5, jl2)))))"
  using nf ok
  by (simp add: ik_joblist_update_def vector_init_def btree_init_def allocate_no_failures
        find_all_no_failures split: option.splits outcome.splits prod.splits)

lemma linear_chain_effector: "linear_chain n \<Longrightarrow> any_effector n"
  by (induction n rule: linear_chain.induct) auto

lemma update_unfold:
  assumes vi: "vector_init e = (ok1, e1)"
    and fa: "find_all_effector_nodes e1 [] tree_root [] = (s, e2, es)"
    and bi: "btree_init e2 = (ok3, e3)"
  shows "ik_joblist_update rc e jl tree_root =
    (if \<not> ok1 then Some (Returns (IK_ERR_OUT_OF_MEMORY rc, ik_log_out_of_memory e1, jl))
     else if s \<noteq> IK_OK rc then Some (Returns (s, e2, jl))
     else if es = [] then
       Some (Returns (IK_ERR_NO_EFFECTORS_FOUND rc, ik_log_printf IK_WARN e2, jl))
     else if \<not> ok3 then Some (Returns (IK_ERR_OUT_OF_MEMORY rc, ik_log_out_of_memory e3, jl))
     else
       (case mark_nodes e3 Map.empty es of
          None \<Rightarrow> None
        | Some Crashed \<Rightarrow> Some Crashed
        | Some (Returns (s1, e4, m)) \<Rightarrow>
            if s1 \<noteq> IK_OK rc then Some (Returns (s1, e4, jl))
            else
              (case alloc_solvers e4 (jl\<lparr>solvers := []\<rparr>) None tree_root [] m of
                 Crashed \<Rightarrow> Some Crashed
               | Returns (s2, e5, jl2, _) \<Rightarrow>
                   if s2 \<noteq> IK_OK rc then Some (Returns (s2, e5, jl2))
                   else Some (Returns (IK_OK rc, e5, jl2)))))"
  by (cases ok1; cases ok3) (simp_all add: ik_joblist_update_def vi fa bi)

lemma returning_update_keeps_joblist:
  assumes run: "ik_joblist_update rc e jl tree_root = Some (Returns (status, e', jl'))"
    and ok: "IK_OK rc = 0"
  shows "jl' = jl"
proof -
  obtain ok1 e1 where vi: "vector_init e = (ok1, e1)" by (cases "vector_init e") auto
  obtain s e2 es where fa: "find_all_effector_nodes e1 [] tree_root [] = (s, e2, es)"
    by (cases "find_all_effector_nodes e1 [] tree_root []") auto
  obtain ok3 e3 where bi: "btree_init e2 = (ok3, e3)" by (cases "btree_init e2") auto
  note unfold = update_unfold [OF vi fa bi, of rc jl]
  show ?thesis
  proof (cases "ok1 \<and> s = 0 \<and> es \<noteq> [] \<and> ok3")
    case False
    with run ok show ?thesis
      unfolding unfold by (auto split: if_splits)
  next
    case True
    with find_all_result(1) [OF fa] have es: "es = effector_nodes tree_root []" by simp
    show ?thesis
    proof (cases "mark_nodes e3 Map.empty es")
      case None
      with run ok True show ?thesis unfolding unfold by simp
    next
      case (Some out)
      show ?thesis
      proof (cases out)
        case Crashed
        with run ok True Some show ?thesis unfolding unfold by simp
      next
        case (Returns t)
        obtain s1 e4 m where t: "t = (s1, e4, m)" by (cases t) auto
        show ?thesis
        proof (cases "s1 = 0")
          case False
          with run ok True Some Returns t show ?thesis unfolding unfold by simp
        next
          case s1: True
          from Some Returns t s1 es
          have "mark_nodes e3 Map.empty (effector_nodes tree_root []) = Some (Returns (0, e4, m))"
            by simp
          from marked_root_crashes [OF this] True es
          have "alloc_solvers e4 (jl\<lparr>solvers := []\<rparr>) None tree_root [] m = Crashed" by simp
          with run ok True Some Returns t s1 show ?thesis unfolding unfold by simp
        qed
      qed
    qed
  qed
qed

subsection \<open>Termination of the marking pass\<close>

text \<open>
  Claim C1 says that the marking pass, and with it a rebuild, terminates for every tree,
  each walk advancing one parent per step and decrementing the counter. The loop of
  \<^verbatim>\<open>mark_nodes\<close> assigns neither: for every tree in which a node other than the root
  carries an effector, when no allocation fails, the marking pass does not return, and
  neither does \<open>ik_joblist_update\<close>.
\<close>

theorem chain_marking_never_returns:
  assumes below: "\<exists>c \<in> set (children tree_root). any_effector c"
    and nf: "failures e = []" and ok: "IK_OK rc = 0"
  shows "mark_nodes e Map.empty (effector_nodes tree_root []) = None \<and>
         ik_joblist_update rc e jl tree_root = None"
proof -
  have div: "mark_nodes e Map.empty (effector_nodes tree_root []) = None"
    by (rule effector_below_diverges [OF below nf])
  from below have "any_effector tree_root" by (cases tree_root) auto
  then have "effector_nodes tree_root [] \<noteq> []" by (simp add: effector_nodes_empty)
  with div show ?thesis by (simp add: update_no_failures [OF nf ok])
qed

theorem chain_marking_never_returns_witness:
  "(\<exists>c \<in> set (children (Node 0 None (Some 1) [Node 1 (Some \<lparr>chain_length = 0\<rparr>) None []])).
      any_effector c) \<and>
   failures \<lparr>failures = [], logged = []\<rparr> = [] \<and>
   IK_OK \<lparr>IK_OK = 0, IK_ERR_OUT_OF_MEMORY = 1, IK_ERR_NO_EFFECTORS_FOUND = 2\<rparr> = 0 \<and>
   ik_joblist_update \<lparr>IK_OK = 0, IK_ERR_OUT_OF_MEMORY = 1, IK_ERR_NO_EFFECTORS_FOUND = 2\<rparr>
     \<lparr>failures = [], logged = []\<rparr> \<lparr>solvers = []\<rparr>
     (Node 0 None (Some 1) [Node 1 (Some \<lparr>chain_length = 0\<rparr>) None []]) = None"
  using chain_marking_never_returns
    [of "Node 0 None (Some 1) [Node 1 (Some \<lparr>chain_length = 0\<rparr>) None []]"
        "\<lparr>failures = [], logged = []\<rparr>"
        "\<lparr>IK_OK = 0, IK_ERR_OUT_OF_MEMORY = 1, IK_ERR_NO_EFFECTORS_FOUND = 2\<rparr>"
        "\<lparr>solvers = []\<rparr>"]
  by simp

subsection \<open>The subtree context at the root\<close>

text \<open>
  Claim C10 says that the context is never \<^verbatim>\<open>NULL\<close> where a node marked \<open>END\<close> or
  \<open>BEGIN_AND_END\<close> is reached, also when the root carries an effector. For every tree
  whose root carries the only effector, when no allocation fails, marking succeeds and
  gives the root one of these two marks, \<open>alloc_solvers\<close> is entered at the root with
  the context \<^verbatim>\<open>NULL\<close>, and the \<^verbatim>\<open>assert\<close> fails.
\<close>

theorem root_effector_crashes:
  assumes eff: "effector tree_root \<noteq> None"
    and below: "\<not> (\<exists>c \<in> set (children tree_root). any_effector c)"
    and nf: "failures e = []" and ok: "IK_OK rc = 0"
  shows "\<exists>m. mark_nodes e Map.empty (effector_nodes tree_root []) = Some (Returns (0, e, m)) \<and>
           m (guid tree_root) \<in> {Some MARK_END, Some MARK_BEGIN_AND_END} \<and>
           alloc_solvers e (jl\<lparr>solvers := []\<rparr>) None tree_root [] m = Crashed \<and>
           ik_joblist_update rc e jl tree_root = Some Crashed"
proof -
  obtain g ef al cs where n: "tree_root = Node g ef al cs" by (cases tree_root)
  from below n have "effector_nodes_each cs [tree_root] = []"
    by (simp add: effector_nodes_empty)
  with eff n have es: "effector_nodes tree_root [] = [(tree_root, [])]" by simp
  from mark_nodes_root_alone [OF eff, of e] nf obtain c where
    run: "mark_nodes e Map.empty [(tree_root, [])] =
      Some (Returns (0, e, [guid tree_root \<mapsto> lookup_mark ! unat (mark_idx c (tree_root, []))]))"
    by (auto simp: allocate_no_failures)
  let ?m = "[guid tree_root \<mapsto> lookup_mark ! unat (mark_idx c (tree_root, []))]"
  from eff have "lookup_mark ! unat (mark_idx c (tree_root, [])) \<in> {MARK_END, MARK_BEGIN_AND_END}"
    by (intro root_mark) (simp_all add: has_effector_def)
  then have m: "?m (guid tree_root) \<in> {Some MARK_END, Some MARK_BEGIN_AND_END}" by auto
  then have crash: "alloc_solvers e (jl\<lparr>solvers := []\<rparr>) None tree_root [] ?m = Crashed"
    by (rule alloc_solvers_null_context)
  from run es crash have "ik_joblist_update rc e jl tree_root = Some Crashed"
    by (simp add: update_no_failures [OF nf ok])
  with run es m crash show ?thesis by auto
qed

theorem root_effector_crashes_witness:
  "effector (Node 0 (Some \<lparr>chain_length = 0\<rparr>) (Some 1) [Node 1 None None []]) \<noteq> None \<and>
   \<not> (\<exists>c \<in> set (children (Node 0 (Some \<lparr>chain_length = 0\<rparr>) (Some 1) [Node 1 None None []])).
        any_effector c) \<and>
   failures \<lparr>failures = [], logged = []\<rparr> = [] \<and>
   IK_OK \<lparr>IK_OK = 0, IK_ERR_OUT_OF_MEMORY = 1, IK_ERR_NO_EFFECTORS_FOUND = 2\<rparr> = 0 \<and>
   ik_joblist_update \<lparr>IK_OK = 0, IK_ERR_OUT_OF_MEMORY = 1, IK_ERR_NO_EFFECTORS_FOUND = 2\<rparr>
     \<lparr>failures = [], logged = []\<rparr> \<lparr>solvers = []\<rparr>
     (Node 0 (Some \<lparr>chain_length = 0\<rparr>) (Some 1) [Node 1 None None []]) = Some Crashed"
  using root_effector_crashes
    [of "Node 0 (Some \<lparr>chain_length = 0\<rparr>) (Some 1) [Node 1 None None []]"
        "\<lparr>failures = [], logged = []\<rparr>"
        "\<lparr>IK_OK = 0, IK_ERR_OUT_OF_MEMORY = 1, IK_ERR_NO_EFFECTORS_FOUND = 2\<rparr>"
        "\<lparr>solvers = []\<rparr>"]
  by auto

subsection \<open>A linear chain\<close>

text \<open>
  Claim C3 says that a rebuild on a linear chain of \<open>N \<ge> 1\<close> nodes, with one effector
  of unbounded chain length on the leaf, produces exactly one subtree. When no
  allocation fails the rebuild produces none: for \<open>N = 1\<close> it stops at the failed
  \<^verbatim>\<open>assert\<close> of \<^verbatim>\<open>alloc_solvers\<close>, for \<open>N \<ge> 2\<close> it does not return.
\<close>

theorem linear_chain_never_succeeds:
  assumes chain: "linear_chain tree_root" and nf: "failures e = []" and ok: "IK_OK rc = 0"
  shows "ik_joblist_update rc e jl tree_root =
           (if children tree_root = [] then Some Crashed else None)"
proof (cases "children tree_root")
  case Nil
  with chain have eff: "effector tree_root \<noteq> None" by (cases tree_root) auto
  then have es: "effector_nodes tree_root [] = [(tree_root, [])]"
    using Nil by (cases tree_root) auto
  from mark_nodes_root_alone [OF eff, of e] nf obtain c where
    run: "mark_nodes e Map.empty [(tree_root, [])] =
      Some (Returns (0, e, [guid tree_root \<mapsto> lookup_mark ! unat (mark_idx c (tree_root, []))]))"
    by (auto simp: allocate_no_failures)
  let ?m = "[guid tree_root \<mapsto> lookup_mark ! unat (mark_idx c (tree_root, []))]"
  from eff have "lookup_mark ! unat (mark_idx c (tree_root, [])) \<in> {MARK_END, MARK_BEGIN_AND_END}"
    by (intro root_mark) (simp_all add: has_effector_def)
  then have "?m (guid tree_root) \<in> {Some MARK_END, Some MARK_BEGIN_AND_END}" by auto
  then have "alloc_solvers e (jl\<lparr>solvers := []\<rparr>) None tree_root [] ?m = Crashed"
    by (rule alloc_solvers_null_context)
  with run es Nil show ?thesis by (simp add: update_no_failures [OF nf ok])
next
  case (Cons c cs)
  with chain have "linear_chain c" by (cases tree_root; cases cs) auto
  then have "any_effector c" by (rule linear_chain_effector)
  with Cons have below: "\<exists>c \<in> set (children tree_root). any_effector c" by auto
  have div: "mark_nodes e Map.empty (effector_nodes tree_root []) = None"
    by (rule effector_below_diverges [OF below nf])
  from below have "any_effector tree_root" by (cases tree_root) auto
  then have "effector_nodes tree_root [] \<noteq> []" by (simp add: effector_nodes_empty)
  with div Cons show ?thesis by (simp add: update_no_failures [OF nf ok])
qed

theorem linear_chain_never_succeeds_witness:
  "linear_chain (Node 0 (Some \<lparr>chain_length = 0\<rparr>) (Some 7) []) \<and>
   linear_chain (Node 0 None (Some 7) [Node 1 None None [Node 2 (Some \<lparr>chain_length = 0\<rparr>) None []]]) \<and>
   failures \<lparr>failures = [], logged = []\<rparr> = [] \<and>
   IK_OK \<lparr>IK_OK = 0, IK_ERR_OUT_OF_MEMORY = 1, IK_ERR_NO_EFFECTORS_FOUND = 2\<rparr> = 0 \<and>
   ik_joblist_update \<lparr>IK_OK = 0, IK_ERR_OUT_OF_MEMORY = 1, IK_ERR_NO_EFFECTORS_FOUND = 2\<rparr> \<lparr>failures = [], logged = []\<rparr> \<lparr>solvers = []\<rparr>
     (Node 0 (Some \<lparr>chain_length = 0\<rparr>) (Some 7) []) = Some Crashed \<and>
   ik_joblist_update \<lparr>IK_OK = 0, IK_ERR_OUT_OF_MEMORY = 1, IK_ERR_NO_EFFECTORS_FOUND = 2\<rparr> \<lparr>failures = [], logged = []\<rparr> \<lparr>solvers = []\<rparr>
     (Node 0 None (Some 7) [Node 1 None None [Node 2 (Some \<lparr>chain_length = 0\<rparr>) None []]]) = None"
  using linear_chain_never_succeeds
    [of "Node 0 (Some \<lparr>chain_length = 0\<rparr>) (Some 7) []" "\<lparr>failures = [], logged = []\<rparr>" "\<lparr>IK_OK = 0, IK_ERR_OUT_OF_MEMORY = 1, IK_ERR_NO_EFFECTORS_FOUND = 2\<rparr>" "\<lparr>solvers = []\<rparr>"]
    linear_chain_never_succeeds
    [of "Node 0 None (Some 7) [Node 1 None None [Node 2 (Some \<lparr>chain_length = 0\<rparr>) None []]]"
        "\<lparr>failures = [], logged = []\<rparr>" "\<lparr>IK_OK = 0, IK_ERR_OUT_OF_MEMORY = 1, IK_ERR_NO_EFFECTORS_FOUND = 2\<rparr>" "\<lparr>solvers = []\<rparr>"]
  by simp

subsection \<open>A tree without effectors\<close>

text \<open>
  Claim C8. For every tree without an effector and every job list, \<open>ik_joblist_update\<close>
  returns with the job list as it was; when the vector of effector nodes could be
  initialised, the status is \<open>IK_ERR_NO_EFFECTORS_FOUND\<close> and a warning is logged.
\<close>

theorem no_effectors_found:
  assumes none: "\<not> any_effector tree_root" and ok: "IK_OK rc = 0"
  shows "\<exists>status e'.
           ik_joblist_update rc e jl tree_root = Some (Returns (status, e', jl)) \<and>
           (fst (vector_init e) \<longrightarrow>
              status = IK_ERR_NO_EFFECTORS_FOUND rc \<and>
              e' = ik_log_printf IK_WARN (snd (vector_init e)))"
  using ok
  by (cases "vector_init e"; cases "fst (vector_init e)")
     (simp_all add: ik_joblist_update_def find_all_no_effectors(1) [OF none])

theorem no_effectors_found_witness:
  "\<not> any_effector (Node 0 None (Some 7) [Node 1 None None []]) \<and>
   IK_OK \<lparr>IK_OK = 0, IK_ERR_OUT_OF_MEMORY = 1, IK_ERR_NO_EFFECTORS_FOUND = 2\<rparr> = 0 \<and>
   fst (vector_init \<lparr>failures = [], logged = []\<rparr>) \<and>
   ik_joblist_update \<lparr>IK_OK = 0, IK_ERR_OUT_OF_MEMORY = 1, IK_ERR_NO_EFFECTORS_FOUND = 2\<rparr>
     \<lparr>failures = [], logged = []\<rparr>
     \<lparr>solvers = [arm_outer]\<rparr>
     (Node 0 None (Some 7) [Node 1 None None []]) =
   Some (Returns (2, \<lparr>failures = [], logged = [IK_WARN]\<rparr>, \<lparr>solvers = [arm_outer]\<rparr>))"
  using no_effectors_found
    [of "Node 0 None (Some 7) [Node 1 None None []]"
        "\<lparr>IK_OK = 0, IK_ERR_OUT_OF_MEMORY = 1, IK_ERR_NO_EFFECTORS_FOUND = 2\<rparr>"
        "\<lparr>failures = [], logged = []\<rparr>"
        "\<lparr>solvers = [arm_outer]\<rparr>"]
  by (auto simp: vector_init_def allocate_def ik_log_printf_def)

subsection \<open>A failed rebuild\<close>





subsection \<open>The table of marks\<close>

text \<open>
  Claim C6, as amended. For every node visited by the marking loop, with \<open>A\<close>, \<open>F\<close>,
  \<open>C\<close> and \<open>E\<close> the four tests of the loop body (has an algorithm, has an effector, has
  a child, is the end of the chain), the round returns the fatal \<open>-1\<close> exactly when
  \<open>C\<close> and \<open>F\<close> are both false, and otherwise the mark looked up is the one in the row of
  the specification's table: \<open>SECTION\<close> exactly for \<open>(A,F,C,E)\<close> in \<open>{0010, 1010}\<close>,
  \<open>BEGIN\<close> exactly for \<open>{0011, 1011, 1100}\<close>, \<open>END\<close> exactly for \<open>A = 0\<close>, \<open>F = 1\<close>,
  \<open>C = 0\<close>, and \<open>BEGIN_AND_END\<close> exactly for the five combinations that remain.
\<close>

theorem mark_of_visited_node:
  "(if mark_idx c node \<in> {0, 1, 8, 9} then None
    else Some (lookup_mark ! unat (mark_idx c node))) =
     spec_mark_table (is_end_of_chain c node) (has_children node) (has_effector node)
       (has_algorithm node) \<and>
   (mark_idx c node \<in> {0, 1, 8, 9}) = ((has_children node, has_effector node) = (False, False)) \<and>
   (lookup_mark ! unat (mark_idx c node) = MARK_SECTION) =
     ((has_algorithm node, has_effector node, has_children node, is_end_of_chain c node)
        \<in> {(False, False, True, False), (True, False, True, False)}) \<and>
   (lookup_mark ! unat (mark_idx c node) = MARK_BEGIN) =
     ((has_algorithm node, has_effector node, has_children node, is_end_of_chain c node)
        \<in> {(False, False, True, True), (True, False, True, True),
            (True, True, False, False)}) \<and>
   (lookup_mark ! unat (mark_idx c node) = MARK_END) =
     ((has_algorithm node, has_effector node, has_children node) = (False, True, False)) \<and>
   (lookup_mark ! unat (mark_idx c node) = MARK_BEGIN_AND_END) =
     ((has_algorithm node, has_effector node, has_children node, is_end_of_chain c node)
        \<in> {(False, True, True, False), (False, True, True, True), (True, True, False, True),
            (True, True, True, False), (True, True, True, True)})"
  by (cases "is_end_of_chain c node"; cases "has_children node"; cases "has_effector node";
      cases "has_algorithm node")
     (simp_all add: mark_idx_def mark_idx_of_def lookup_mark_def)

text \<open>
  The claim as it was stated puts \<open>(A,F,C,E) = 0011\<close> among the combinations marked
  \<open>SECTION\<close>. The root of a tree, with a child, no effector and no algorithm, is such a
  node: its mark is \<open>BEGIN\<close>.
\<close>

theorem mark_of_chain_end_is_not_section:
  "(has_algorithm (Node 0 None None [Node 1 (Some \<lparr>chain_length = 0\<rparr>) None []], []),
    has_effector (Node 0 None None [Node 1 (Some \<lparr>chain_length = 0\<rparr>) None []], []),
    has_children (Node 0 None None [Node 1 (Some \<lparr>chain_length = 0\<rparr>) None []], []),
    is_end_of_chain (- 1) (Node 0 None None [Node 1 (Some \<lparr>chain_length = 0\<rparr>) None []], []))
     = (False, False, True, True) \<and>
   lookup_mark !
     unat (mark_idx (- 1) (Node 0 None None [Node 1 (Some \<lparr>chain_length = 0\<rparr>) None []], []))
     = MARK_BEGIN \<and>
   lookup_mark !
     unat (mark_idx (- 1) (Node 0 None None [Node 1 (Some \<lparr>chain_length = 0\<rparr>) None []], []))
     \<noteq> MARK_SECTION"
  by (simp add: mark_idx_def mark_idx_of_def lookup_mark_def is_end_of_chain_def
        has_children_def has_effector_def has_algorithm_def)

subsection \<open>Merging marks\<close>

text \<open>
  Claim C7. When the node already has a mark, the second \<^verbatim>\<open>switch\<close> of the loop body
  succeeds without allocating, and the stored mark becomes \<open>SECTION\<close> when the new mark
  is \<open>SECTION\<close> and stays what it was otherwise; no other node's mark changes.
\<close>

theorem merge_of_marks:
  "marked g = Some old \<Longrightarrow>
   store_mark e marked g new_mark =
     (True, e, marked(g \<mapsto> (if new_mark = MARK_SECTION then MARK_SECTION else old)))"
  by (auto simp: store_mark_def btree_insert_or_get_def)

theorem merge_of_marks_witness:
  "[7 \<mapsto> MARK_BEGIN] 7 = Some MARK_BEGIN \<and>
   store_mark \<lparr>failures = [True], logged = []\<rparr> [7 \<mapsto> MARK_BEGIN] 7 MARK_SECTION =
     (True, \<lparr>failures = [True], logged = []\<rparr>, [7 \<mapsto> MARK_SECTION]) \<and>
   store_mark \<lparr>failures = [True], logged = []\<rparr> [7 \<mapsto> MARK_BEGIN] 7 MARK_END =
     (True, \<lparr>failures = [True], logged = []\<rparr>, [7 \<mapsto> MARK_BEGIN])"
  using merge_of_marks [of "[7 \<mapsto> MARK_BEGIN]" 7 MARK_BEGIN "\<lparr>failures = [True], logged = []\<rparr>" MARK_SECTION]
    merge_of_marks [of "[7 \<mapsto> MARK_BEGIN]" 7 MARK_BEGIN "\<lparr>failures = [True], logged = []\<rparr>" MARK_END]
  by simp

subsection \<open>The partitioning pass\<close>

lemma self_subnode [simp]: "n \<in> subnodes n"
  by (cases n) simp

lemma guid_in_guids [simp]: "guid n \<in> set (guids n)"
  by (cases n) simp

lemma subnodes_guids: "x \<in> subnodes n \<Longrightarrow> set (guids x) \<subseteq> set (guids n)"
  by (induction n rule: subnodes.induct) fastforce

lemma subnodes_distinct: "x \<in> subnodes n \<Longrightarrow> distinct (guids n) \<Longrightarrow> distinct (guids x)"
proof (induction n rule: subnodes.induct)
  case (1 g ef al cs)
  show ?case
  proof (cases "x = Node g ef al cs")
    case True
    with "1.prems" show ?thesis by simp
  next
    case False
    with "1.prems" obtain c where c: "c \<in> set cs" "x \<in> subnodes c" by auto
    from "1.prems"(2) c(1) have "distinct (guids c)" by (auto simp: distinct_concat_iff)
    with "1.IH" c show ?thesis by blast
  qed
qed

lemma descendants_guids:
  "y \<in> descendants x \<Longrightarrow> guid y \<in> set (concat (map guids (children x)))"
  using subnodes_guids by (fastforce simp: descendants_def)

lemma descendants_guids': "y \<in> descendants x \<Longrightarrow> guid y \<in> set (guids x)"
  by (cases x) (auto dest: descendants_guids)

lemma not_own_descendant: "distinct (guids x) \<Longrightarrow> x \<notin> descendants x"
  by (cases x) (auto dest!: descendants_guids)

lemma ordered_append:
  "ordered (xs @ ys) =
     (ordered xs \<and> ordered ys \<and> (\<forall>x \<in> set xs. \<forall>y \<in> set ys. \<not> nested_in y x))"
  by (induction xs) auto

lemma ordered_nth:
  "ordered js \<Longrightarrow> i < j \<Longrightarrow> j < length js \<Longrightarrow> \<not> nested_in (js ! j) (js ! i)"
proof (induction js arbitrary: i j)
  case Nil
  then show ?case by simp
next
  case (Cons x xs)
  show ?case
  proof (cases i)
    case 0
    with Cons.prems show ?thesis by (cases j) auto
  next
    case (Suc i')
    with Cons.prems obtain j' where "j = Suc j'" by (cases j) auto
    with Suc Cons show ?thesis by simp
  qed
qed

lemma grows_refl: "grows S jl jl"
  by (simp add: grows_def)

lemma grows_mono: "grows S jl jl' \<Longrightarrow> S \<subseteq> T \<Longrightarrow> grows T jl jl'"
  by (auto simp: grows_def)

lemma grows_trans:
  assumes "grows S jl jl1" and "grows T jl1 jl2"
    and sep: "\<forall>x \<in> S. \<forall>y \<in> T. y \<notin> descendants x"
  shows "grows (S \<union> T) jl jl2"
proof -
  from assms(1) obtain js where js: "solvers jl1 = solvers jl @ js"
    "solver_root ` set js \<subseteq> S" "ordered js" by (auto simp: grows_def)
  from assms(2) obtain ks where ks: "solvers jl2 = solvers jl1 @ ks"
    "solver_root ` set ks \<subseteq> T" "ordered ks" by (auto simp: grows_def)
  from js(2) ks(2) sep have "\<forall>x \<in> set js. \<forall>y \<in> set ks. \<not> nested_in y x"
    by (auto simp: nested_in_def)
  with js ks have "solvers jl2 = solvers jl @ (js @ ks)"
    "solver_root ` set (js @ ks) \<subseteq> S \<union> T" "ordered (js @ ks)"
    by (auto simp: ordered_append)
  then show ?thesis unfolding grows_def by blast
qed

lemma grows_push:
  assumes "vector_push e (solvers jl) s = (ok, e1, sv)"
  shows "grows {solver_root s} jl (jl\<lparr>solvers := sv\<rparr>)"
  using assms by (auto simp: grows_def vector_push_def split: prod.splits if_splits)

lemma siblings_apart:
  assumes d: "distinct (concat (map guids (c # cs)))"
    and x: "x \<in> subnodes c" and y: "y \<in> (\<Union>k \<in> set cs. subnodes k)"
  shows "y \<notin> descendants x"
proof
  assume "y \<in> descendants x"
  then have "guid y \<in> set (guids x)" by (rule descendants_guids')
  with subnodes_guids [OF x] have 1: "guid y \<in> set (guids c)" by auto
  from y obtain k where k: "k \<in> set cs" "y \<in> subnodes k" by auto
  from subnodes_guids [OF k(2)] have 2: "guid y \<in> set (guids k)" by auto
  from d k(1) have "set (guids c) \<inter> set (guids k) = {}" by auto
  with 1 2 show False by auto
qed

lemma parent_apart:
  assumes d: "distinct (guids (Node g ef al cs))"
    and x: "x \<in> (\<Union>k \<in> set cs. subnodes k)"
  shows "Node g ef al cs \<notin> descendants x"
proof
  assume "Node g ef al cs \<in> descendants x"
  then have "g \<in> set (guids x)" by (auto dest: descendants_guids')
  moreover from x obtain k where k: "k \<in> set cs" "x \<in> subnodes k" by auto
  ultimately have "g \<in> set (guids k)" using subnodes_guids by blast
  with d k(1) show False by auto
qed


lemma new_solver_root:
  "new_solver e st = (Some solver, e1) \<Longrightarrow> solver_root solver = fst (root st)"
  by (auto simp: new_solver_def ik_solver_create_def solver_root_def
           split: option.splits prod.splits bool.splits)

lemma partition_invariant:
  "alloc_solvers e jl cur n anc m = Returns (s, e', jl', cur') \<Longrightarrow>
     (s = 0 \<or> s = - 1) \<and> map_option root cur' = map_option root cur \<and>
     (distinct (guids n) \<longrightarrow> grows (subnodes n) jl jl')"
  "alloc_solvers_each e jl cur cs panc m = Returns (s, e', jl', cur') \<Longrightarrow>
     (s = 0 \<or> s = - 1) \<and> map_option root cur' = map_option root cur \<and>
     (distinct (concat (map guids cs)) \<longrightarrow> grows (\<Union>c \<in> set cs. subnodes c) jl jl')"
  "recurse_with_new_subtree e jl n anc m = Returns (s, e', jl') \<Longrightarrow>
     (s = 0 \<or> s = - 1) \<and> (distinct (guids n) \<longrightarrow> grows (subnodes n) jl jl')"
proof (induction e jl cur n anc m and e jl cur cs panc m and e jl n anc m
       arbitrary: s e' jl' cur' and s e' jl' cur' and s e' jl'
       rule: alloc_solvers_alloc_solvers_each_recurse_with_new_subtree.induct)
  case (1 e jl cur g ef al cs anc m)
  let ?n = "Node g ef al cs"
  note run = "1.prems"
  have sub: "(\<Union>c \<in> set cs. subnodes c) \<subseteq> subnodes ?n" by auto
  have dist: "distinct (guids ?n) \<Longrightarrow> distinct (concat (map guids cs))" by simp
  show ?case
  proof (cases "btree_find m g")
    case None
    with run show ?thesis by (simp add: grows_refl)
  next
    case (Some mk)
    show ?thesis
    proof (cases mk)
      case MARK_SECTION
      with Some run have each: "alloc_solvers_each e jl cur cs (?n # anc) m = Returns (s, e', jl', cur')"
        by simp
      from "1.IH"(1) [OF Some MARK_SECTION each] sub dist show ?thesis
        by (blast intro: grows_mono)
    next
      case MARK_BEGIN
      with Some run have rec: "recurse_with_new_subtree e jl ?n anc m = Returns (s, e', jl')"
        and cur: "cur' = cur"
        by (auto split: outcome.splits)
      from "1.IH"(2) [OF Some MARK_BEGIN rec] cur show ?thesis by simp
    next
      case MARK_END
      with Some run obtain st where st: "cur = Some st" by (cases cur) auto
      obtain ok e1 lv where vp: "vector_push e (leaves st) (?n, anc) = (ok, e1, lv)"
        by (cases "vector_push e (leaves st) (?n, anc)") auto
      show ?thesis
      proof (cases ok)
        case False
        with Some MARK_END st vp run show ?thesis by (auto simp: grows_refl)
      next
        case True
        with Some MARK_END st vp run
        have each: "alloc_solvers_each e1 jl (Some (st\<lparr>leaves := lv\<rparr>)) cs (?n # anc) m =
                      Returns (s, e', jl', cur')"
          by simp
        from vp True have vp': "(True, e1, lv) = vector_push e (leaves st) (?n, anc)" by simp
        from "1.IH"(3) [OF Some MARK_END st vp' refl refl each] st sub dist show ?thesis
          by (auto intro: grows_mono)
      qed
    next
      case MARK_BEGIN_AND_END
      with Some run obtain st where st: "cur = Some st" by (cases cur) auto
      obtain ok e1 lv where vp: "vector_push e (leaves st) (?n, anc) = (ok, e1, lv)"
        by (cases "vector_push e (leaves st) (?n, anc)") auto
      show ?thesis
      proof (cases ok)
        case False
        with Some MARK_BEGIN_AND_END st vp run show ?thesis by (auto simp: grows_refl)
      next
        case True
        with Some MARK_BEGIN_AND_END st vp run
        have rec: "recurse_with_new_subtree e1 jl ?n anc m = Returns (s, e', jl')"
          and cur: "cur' = Some (st\<lparr>leaves := lv\<rparr>)"
          by (auto split: outcome.splits)
        from vp True have vp': "(True, e1, lv) = vector_push e (leaves st) (?n, anc)" by simp
        from "1.IH"(4) [OF Some MARK_BEGIN_AND_END st vp' refl refl rec] st cur show ?thesis
          by simp
      qed
    next
      case MARK_MINUS_ONE
      with Some run show ?thesis by (simp add: grows_refl)
    qed
  qed
next
  case (2 e jl cur panc m)
  then show ?case by (simp add: grows_refl)
next
  case (3 e jl cur c cs panc m)
  note run = "3.prems"
  from run obtain t where one: "alloc_solvers e jl cur c panc m = Returns t"
    by (cases "alloc_solvers e jl cur c panc m") auto
  obtain r e1 jl1 cur1 where t: "t = (r, e1, jl1, cur1)" by (cases t) auto
  from "3.IH"(1) [OF one [unfolded t]]
  have ih1: "r = 0 \<or> r = - 1" "map_option root cur1 = map_option root cur"
    "distinct (guids c) \<Longrightarrow> grows (subnodes c) jl jl1" by simp_all
  show ?case
  proof (cases "r = 0")
    case False
    with run one t have res: "s = - 1" "jl' = jl1" "cur' = cur1" by simp_all
    have "distinct (concat (map guids (c # cs))) \<Longrightarrow>
            grows (\<Union>k \<in> set (c # cs). subnodes k) jl jl'"
      using ih1(3) res by (auto intro: grows_mono)
    with res ih1 show ?thesis by blast
  next
    case True
    with run one t have rest: "alloc_solvers_each e1 jl1 cur1 cs panc m = Returns (s, e', jl', cur')"
      by simp
    have r0: "\<not> r \<noteq> 0" using True by simp
    from "3.IH"(2) [OF one [unfolded t] refl refl refl r0 rest]
    have ih2: "s = 0 \<or> s = - 1" "map_option root cur' = map_option root cur1"
      "distinct (concat (map guids cs)) \<Longrightarrow> grows (\<Union>k \<in> set cs. subnodes k) jl1 jl'"
      by simp_all
    have "grows (\<Union>k \<in> set (c # cs). subnodes k) jl jl'"
      if d: "distinct (concat (map guids (c # cs)))"
    proof -
      from d have "distinct (guids c)" "distinct (concat (map guids cs))" by simp_all
      with ih1(3) ih2(3) have g1: "grows (subnodes c) jl jl1"
        and g2: "grows (\<Union>k \<in> set cs. subnodes k) jl1 jl'" by simp_all
      have "\<forall>x \<in> subnodes c. \<forall>y \<in> (\<Union>k \<in> set cs. subnodes k). y \<notin> descendants x"
        using siblings_apart [OF d] by blast
      from grows_trans [OF g1 g2 this] show ?thesis by simp
    qed
    with ih1 ih2 show ?thesis by simp
  qed
next
  case (4 e jl g ef al cs anc m)
  let ?n = "Node g ef al cs"
  note run = "4.prems"
  obtain ok e1 where init: "ik_subtree_init e = (ok, e1)" by (cases "ik_subtree_init e") auto
  show ?case
  proof (cases ok)
    case False
    with run init show ?thesis by (simp add: grows_refl)
  next
    case True
    let ?st = "\<lparr>root = (?n, anc), leaves = []\<rparr>"
    from run init True obtain t where
      each: "alloc_solvers_each e1 jl (Some ?st) cs (?n # anc) m = Returns t"
      by (cases "alloc_solvers_each e1 jl (Some ?st) cs (?n # anc) m") auto
    obtain r e2 jl2 st2 where t: "t = (r, e2, jl2, st2)" by (cases t) auto
    from init True have init': "(True, e1) = ik_subtree_init e" by simp
    from "4.IH" [OF init' refl each [unfolded t]]
    have ih: "r = 0 \<or> r = - 1" "map_option root st2 = Some (?n, anc)"
      "distinct (concat (map guids cs)) \<Longrightarrow> grows (\<Union>k \<in> set cs. subnodes k) jl jl2"
      by simp_all
    have sub: "(\<Union>k \<in> set cs. subnodes k) \<subseteq> subnodes ?n" by auto
    show ?thesis
    proof (cases "r = 0")
      case False
      with run init True each t have "s = - 1" "jl' = jl2" by simp_all
      with ih(3) sub show ?thesis by (auto intro: grows_mono)
    next
      case r: True
      from ih(2) obtain st where st: "st2 = Some st" "root st = (?n, anc)" by auto
      obtain sol e3 where ns: "new_solver e2 st = (sol, e3)" by (cases "new_solver e2 st") auto
      show ?thesis
      proof (cases sol)
        case None
        with run init True each t r st ns have "s = - 1" "jl' = jl2" by simp_all
        with ih(3) sub show ?thesis by (auto intro: grows_mono)
      next
        case (Some solver)
        obtain ok4 e4 sv where vp: "vector_push e3 (solvers jl2) solver = (ok4, e4, sv)"
          by (cases "vector_push e3 (solvers jl2) solver") auto
        from run init True each t r st ns Some vp
        have res: "s = 0 \<or> s = - 1" "jl' = jl2\<lparr>solvers := sv\<rparr>"
          by (cases ok4; simp)+
        have "grows (subnodes ?n) jl jl'" if d: "distinct (guids ?n)"
        proof -
          from d ih(3) have g1: "grows (\<Union>k \<in> set cs. subnodes k) jl jl2" by simp
          from new_solver_root [OF ns [unfolded Some]] st
          have "solver_root solver = ?n" by simp
          with grows_push [OF vp] res have g2: "grows {?n} jl2 jl'" by simp
          have "\<forall>x \<in> (\<Union>k \<in> set cs. subnodes k). \<forall>y \<in> {?n}. y \<notin> descendants x"
            using parent_apart [OF d] by blast
          from grows_trans [OF g1 g2 this] show ?thesis
            by (rule grows_mono) auto
        qed
        with res show ?thesis by simp
      qed
    qed
  qed
qed

text \<open>
  Claim C9. Whenever \<open>alloc_solvers\<close> returns \<open>0\<close> on a tree whose identifiers are
  distinct, with any context and any map of marks, the job list is the one it was given
  followed by the new jobs, and a new job that is nested in another new job stands
  strictly before it.
\<close>

theorem nested_job_precedes:
  assumes run: "alloc_solvers e jl cur n anc m = Returns (0, e', jl', cur')"
    and d: "distinct (guids n)"
  shows "\<exists>js. solvers jl' = solvers jl @ js \<and>
           (\<forall>i < length js. \<forall>j < length js. nested_in (js ! i) (js ! j) \<longrightarrow> i < j)"
proof -
  from partition_invariant(1) [OF run] d have "grows (subnodes n) jl jl'" by simp
  then obtain js where js: "solvers jl' = solvers jl @ js"
    "solver_root ` set js \<subseteq> subnodes n" "ordered js" by (auto simp: grows_def)
  have "i < j" if i: "i < length js" and j: "j < length js"
    and nest: "nested_in (js ! i) (js ! j)" for i j
  proof (rule ccontr)
    assume "\<not> i < j"
    then consider "j < i" | "i = j" by linarith
    then show False
    proof cases
      case 1
      from ordered_nth [OF js(3) 1 i] nest show False by simp
    next
      case 2
      from i js(2) have "solver_root (js ! i) \<in> subnodes n" by auto
      from subnodes_distinct [OF this d] have "distinct (guids (solver_root (js ! i)))" .
      from not_own_descendant [OF this] nest 2 show False by (simp add: nested_in_def)
    qed
  qed
  with js(1) show ?thesis by blast
qed

theorem nested_job_precedes_witness:
  "alloc_solvers \<lparr>failures = [], logged = []\<rparr> \<lparr>solvers = []\<rparr> None arm0 [] arm_marks =
     Returns (0, \<lparr>failures = [], logged = []\<rparr>, \<lparr>solvers = [arm_inner, arm_outer]\<rparr>, None) \<and>
   distinct (guids arm0) \<and>
   nested_in arm_inner arm_outer \<and>
   (\<exists>js. [arm_inner, arm_outer] = [] @ js \<and>
      (\<forall>i < length js. \<forall>j < length js. nested_in (js ! i) (js ! j) \<longrightarrow> i < j))"
proof -
  have run: "alloc_solvers \<lparr>failures = [], logged = []\<rparr> \<lparr>solvers = []\<rparr> None arm0 [] arm_marks =
     Returns (0, \<lparr>failures = [], logged = []\<rparr>, \<lparr>solvers = [arm_inner, arm_outer]\<rparr>, None)"
    by code_simp
  have d: "distinct (guids arm0)"
    by (simp add: arm0_def arm1_def arm2_def arm3_def)
  have n: "nested_in arm_inner arm_outer"
    by (simp add: nested_in_def solver_root_def descendants_def arm_inner_def arm_outer_def
          arm1_def arm2_def)
  from nested_job_precedes [OF run d] run d n show ?thesis by simp
qed

subsection \<open>The governing algorithm\<close>

lemma find_algorithm_first:
  "find_algorithm n anc =
     (case List.map_filter algorithm (butlast (n # anc)) of [] \<Rightarrow> None | a # _ \<Rightarrow> Some a)"
  by (induction anc arbitrary: n) (auto simp: List.map_filter_simps split: option.splits)

lemma find_algorithm_none:
  "List.map_filter algorithm (n # anc) = [] \<Longrightarrow> find_algorithm n anc = None"
  by (induction anc arbitrary: n) (auto simp: List.map_filter_simps split: option.splits)

lemma find_algorithm_some:
  "List.map_filter algorithm (butlast (n # anc)) = a # rest \<Longrightarrow> find_algorithm n anc = Some a"
  by (simp add: find_algorithm_first)

text \<open>
  Claim C4, as amended. \<open>new_solver\<close> starts at the root of the subtree itself: the
  first algorithm among that node and its ancestors below the root of the tree governs
  the subtree, and \<open>recurse_with_new_subtree\<close>, once the loop over the children has
  returned \<open>0\<close>, creates the job with it. When neither the node nor any of its
  ancestors, the root of the tree included, has an algorithm, \<open>new_solver\<close> logs an
  error and returns \<^verbatim>\<open>NULL\<close>, and \<open>recurse_with_new_subtree\<close> returns \<open>-1\<close> without
  adding a job. Nothing is said here of a tree whose root alone has an algorithm.
\<close>

theorem governing_algorithm:
  "(root st = (n, anc) \<and> List.map_filter algorithm (butlast (n # anc)) = a # rest \<longrightarrow>
      new_solver e st = ik_solver_create e st a) \<and>
   (root st = (n, anc) \<and> List.map_filter algorithm (n # anc) = [] \<longrightarrow>
      new_solver e st = (None, ik_log_printf IK_ERROR e)) \<and>
   (ik_subtree_init e = (True, e1) \<and>
    alloc_solvers_each e1 jl (Some \<lparr>root = (n, anc), leaves = []\<rparr>) (children n) (n # anc) m =
      Returns (0, e2, jl2, Some st') \<and>
    List.map_filter algorithm (butlast (n # anc)) = a # rest \<longrightarrow>
      recurse_with_new_subtree e jl n anc m =
        (case ik_solver_create e2 st' a of
           (None, e3) \<Rightarrow> Returns (- 1, e3, jl2)
         | (Some solver, e3) \<Rightarrow>
             (case vector_push e3 (solvers jl2) solver of
                (False, e4, sv) \<Rightarrow> Returns (- 1, e4, jl2\<lparr>solvers := sv\<rparr>)
              | (True, e4, sv) \<Rightarrow> Returns (0, e4, jl2\<lparr>solvers := sv\<rparr>)))) \<and>
   (ik_subtree_init e = (True, e1) \<and>
    alloc_solvers_each e1 jl (Some \<lparr>root = (n, anc), leaves = []\<rparr>) (children n) (n # anc) m =
      Returns (0, e2, jl2, Some st') \<and>
    List.map_filter algorithm (n # anc) = [] \<longrightarrow>
      recurse_with_new_subtree e jl n anc m = Returns (- 1, ik_log_printf IK_ERROR e2, jl2))"
proof (intro conjI impI)
  assume "root st = (n, anc) \<and> List.map_filter algorithm (butlast (n # anc)) = a # rest"
  then show "new_solver e st = ik_solver_create e st a"
    by (simp add: new_solver_def find_algorithm_some [of n anc a rest])
next
  assume "root st = (n, anc) \<and> List.map_filter algorithm (n # anc) = []"
  then show "new_solver e st = (None, ik_log_printf IK_ERROR e)"
    by (simp add: new_solver_def find_algorithm_none)
next
  assume a: "ik_subtree_init e = (True, e1) \<and>
    alloc_solvers_each e1 jl (Some \<lparr>root = (n, anc), leaves = []\<rparr>) (children n) (n # anc) m =
      Returns (0, e2, jl2, Some st') \<and>
    List.map_filter algorithm (butlast (n # anc)) = a # rest"
  then have each: "alloc_solvers_each e1 jl (Some \<lparr>root = (n, anc), leaves = []\<rparr>)
      (children n) (n # anc) m = Returns (0, e2, jl2, Some st')" by simp
  from partition_invariant(2) [OF each] have st: "root st' = (n, anc)" by simp
  from a st have "new_solver e2 st' = ik_solver_create e2 st' a"
    by (simp add: new_solver_def find_algorithm_some [of n anc a rest])
  with a show "recurse_with_new_subtree e jl n anc m =
        (case ik_solver_create e2 st' a of
           (None, e3) \<Rightarrow> Returns (- 1, e3, jl2)
         | (Some solver, e3) \<Rightarrow>
             (case vector_push e3 (solvers jl2) solver of
                (False, e4, sv) \<Rightarrow> Returns (- 1, e4, jl2\<lparr>solvers := sv\<rparr>)
              | (True, e4, sv) \<Rightarrow> Returns (0, e4, jl2\<lparr>solvers := sv\<rparr>)))"
    by (cases n) (simp split: prod.splits option.splits bool.splits)
next
  assume a: "ik_subtree_init e = (True, e1) \<and>
    alloc_solvers_each e1 jl (Some \<lparr>root = (n, anc), leaves = []\<rparr>) (children n) (n # anc) m =
      Returns (0, e2, jl2, Some st') \<and>
    List.map_filter algorithm (n # anc) = []"
  then have each: "alloc_solvers_each e1 jl (Some \<lparr>root = (n, anc), leaves = []\<rparr>)
      (children n) (n # anc) m = Returns (0, e2, jl2, Some st')" by simp
  from partition_invariant(2) [OF each] have st: "root st' = (n, anc)" by simp
  from a st have "new_solver e2 st' = (None, ik_log_printf IK_ERROR e2)"
    by (simp add: new_solver_def find_algorithm_none)
  with a show "recurse_with_new_subtree e jl n anc m =
      Returns (- 1, ik_log_printf IK_ERROR e2, jl2)"
    by (cases n) simp
qed

theorem governing_algorithm_witness:
  "root \<lparr>root = (arm2, [arm1, arm0]), leaves = [(arm3, [arm2, arm1, arm0])]\<rparr> =
     (arm2, [arm1, arm0]) \<and>
   List.map_filter algorithm (butlast [arm2, arm1, arm0]) = [7] \<and>
   new_solver \<lparr>failures = [], logged = []\<rparr>
     \<lparr>root = (arm2, [arm1, arm0]), leaves = [(arm3, [arm2, arm1, arm0])]\<rparr> =
     (Some arm_inner, \<lparr>failures = [], logged = []\<rparr>) \<and>
   ik_subtree_init \<lparr>failures = [], logged = []\<rparr> = (True, \<lparr>failures = [], logged = []\<rparr>) \<and>
   alloc_solvers_each \<lparr>failures = [], logged = []\<rparr> \<lparr>solvers = []\<rparr>
     (Some \<lparr>root = (arm2, [arm1, arm0]), leaves = []\<rparr>) (children arm2) [arm2, arm1, arm0]
     arm_marks =
     Returns (0, \<lparr>failures = [], logged = []\<rparr>, \<lparr>solvers = []\<rparr>,
       Some \<lparr>root = (arm2, [arm1, arm0]), leaves = [(arm3, [arm2, arm1, arm0])]\<rparr>) \<and>
   recurse_with_new_subtree \<lparr>failures = [], logged = []\<rparr> \<lparr>solvers = []\<rparr> arm2 [arm1, arm0]
     arm_marks = Returns (0, \<lparr>failures = [], logged = []\<rparr>, \<lparr>solvers = [arm_inner]\<rparr>) \<and>
   root \<lparr>root = (Node 1 None None [], [Node 0 None None [Node 1 None None []]]), leaves = []\<rparr> =
     (Node 1 None None [], [Node 0 None None [Node 1 None None []]]) \<and>
   List.map_filter algorithm [Node 1 None None [], Node 0 None None [Node 1 None None []]] = [] \<and>
   new_solver \<lparr>failures = [], logged = []\<rparr>
     \<lparr>root = (Node 1 None None [], [Node 0 None None [Node 1 None None []]]), leaves = []\<rparr> =
     (None, \<lparr>failures = [], logged = [IK_ERROR]\<rparr>) \<and>
   alloc_solvers_each \<lparr>failures = [], logged = []\<rparr> \<lparr>solvers = []\<rparr>
     (Some \<lparr>root = (Node 1 None None [], [Node 0 None None [Node 1 None None []]]), leaves = []\<rparr>)
     (children (Node 1 None None []))
     [Node 1 None None [], Node 0 None None [Node 1 None None []]] [1 \<mapsto> MARK_BEGIN] =
     Returns (0, \<lparr>failures = [], logged = []\<rparr>, \<lparr>solvers = []\<rparr>,
       Some \<lparr>root = (Node 1 None None [], [Node 0 None None [Node 1 None None []]]),
             leaves = []\<rparr>) \<and>
   recurse_with_new_subtree \<lparr>failures = [], logged = []\<rparr> \<lparr>solvers = []\<rparr> (Node 1 None None [])
     [Node 0 None None [Node 1 None None []]] [1 \<mapsto> MARK_BEGIN] =
     Returns (- 1, \<lparr>failures = [], logged = [IK_ERROR]\<rparr>, \<lparr>solvers = []\<rparr>)"
proof -
  have mf: "List.map_filter algorithm (butlast [arm2, arm1, arm0]) = [7]"
    by (simp add: List.map_filter_simps arm2_def arm1_def)
  have each: "alloc_solvers_each \<lparr>failures = [], logged = []\<rparr> \<lparr>solvers = []\<rparr>
     (Some \<lparr>root = (arm2, [arm1, arm0]), leaves = []\<rparr>) (children arm2) [arm2, arm1, arm0]
     arm_marks =
     Returns (0, \<lparr>failures = [], logged = []\<rparr>, \<lparr>solvers = []\<rparr>,
       Some \<lparr>root = (arm2, [arm1, arm0]), leaves = [(arm3, [arm2, arm1, arm0])]\<rparr>)"
    by code_simp
  have init: "ik_subtree_init \<lparr>failures = [], logged = []\<rparr> = (True, \<lparr>failures = [], logged = []\<rparr>)"
    by (simp add: ik_subtree_init_def allocate_def)
  have create: "ik_solver_create \<lparr>failures = [], logged = []\<rparr>
      \<lparr>root = (arm2, [arm1, arm0]), leaves = [(arm3, [arm2, arm1, arm0])]\<rparr> 7 =
      (Some arm_inner, \<lparr>failures = [], logged = []\<rparr>)"
    by (simp add: ik_solver_create_def allocate_def arm_inner_def)
  have push: "vector_push \<lparr>failures = [], logged = []\<rparr> [] arm_inner =
      (True, \<lparr>failures = [], logged = []\<rparr>, [arm_inner])"
    by (simp add: vector_push_def allocate_def)
  note g = governing_algorithm
      [where st = "\<lparr>root = (arm2, [arm1, arm0]), leaves = [(arm3, [arm2, arm1, arm0])]\<rparr>"
         and n = arm2 and anc = "[arm1, arm0]" and a = 7 and rest = "[]"
         and e = "\<lparr>failures = [], logged = []\<rparr>" and ?e1.0 = "\<lparr>failures = [], logged = []\<rparr>"
         and ?e2.0 = "\<lparr>failures = [], logged = []\<rparr>" and jl = "\<lparr>solvers = []\<rparr>"
         and ?jl2.0 = "\<lparr>solvers = []\<rparr>" and m = arm_marks
         and st' = "\<lparr>root = (arm2, [arm1, arm0]), leaves = [(arm3, [arm2, arm1, arm0])]\<rparr>"]
  note h = governing_algorithm
      [where st = "\<lparr>root = (Node 1 None None [], [Node 0 None None [Node 1 None None []]]),
                    leaves = []\<rparr>"
         and n = "Node 1 None None []" and anc = "[Node 0 None None [Node 1 None None []]]"
         and e = "\<lparr>failures = [], logged = []\<rparr>" and ?e1.0 = "\<lparr>failures = [], logged = []\<rparr>"
         and ?e2.0 = "\<lparr>failures = [], logged = []\<rparr>" and jl = "\<lparr>solvers = []\<rparr>"
         and ?jl2.0 = "\<lparr>solvers = []\<rparr>" and m = "[1 \<mapsto> MARK_BEGIN]"
         and st' = "\<lparr>root = (Node 1 None None [], [Node 0 None None [Node 1 None None []]]),
                     leaves = []\<rparr>"]
  from g mf each init create push have 1:
    "new_solver \<lparr>failures = [], logged = []\<rparr>
       \<lparr>root = (arm2, [arm1, arm0]), leaves = [(arm3, [arm2, arm1, arm0])]\<rparr> =
       (Some arm_inner, \<lparr>failures = [], logged = []\<rparr>)"
    "recurse_with_new_subtree \<lparr>failures = [], logged = []\<rparr> \<lparr>solvers = []\<rparr> arm2 [arm1, arm0]
       arm_marks = Returns (0, \<lparr>failures = [], logged = []\<rparr>, \<lparr>solvers = [arm_inner]\<rparr>)"
    by simp_all
  from h init have 2:
    "new_solver \<lparr>failures = [], logged = []\<rparr>
       \<lparr>root = (Node 1 None None [], [Node 0 None None [Node 1 None None []]]), leaves = []\<rparr> =
       (None, \<lparr>failures = [], logged = [IK_ERROR]\<rparr>)"
    "recurse_with_new_subtree \<lparr>failures = [], logged = []\<rparr> \<lparr>solvers = []\<rparr> (Node 1 None None [])
       [Node 0 None None [Node 1 None None []]] [1 \<mapsto> MARK_BEGIN] =
       Returns (- 1, \<lparr>failures = [], logged = [IK_ERROR]\<rparr>, \<lparr>solvers = []\<rparr>)"
    by (simp_all add: List.map_filter_simps ik_log_printf_def)
  from 1 2 mf each init show ?thesis
    by (simp add: List.map_filter_simps)
qed

text \<open>
  The claim as it was stated leaves the subtree's root out. Node 1, with algorithm 5, is
  the child of the tree's root, node 0, with algorithm 9: the job of the subtree rooted
  at node 1 gets algorithm 5.
\<close>

theorem governing_algorithm_counterexample:
  "new_solver \<lparr>failures = [], logged = []\<rparr>
     \<lparr>root = (Node 1 None (Some 5) [], [Node 0 None (Some 9) [Node 1 None (Some 5) []]]),
      leaves = []\<rparr> =
     (Some \<lparr>solver_subtree =
              \<lparr>root = (Node 1 None (Some 5) [], [Node 0 None (Some 9) [Node 1 None (Some 5) []]]),
               leaves = []\<rparr>,
            solver_algorithm = 5\<rparr>, \<lparr>failures = [], logged = []\<rparr>)"
  by code_simp

text \<open>
  The loop of \<^verbatim>\<open>new_solver\<close> runs while \<^verbatim>\<open>node->parent != NULL\<close>, so it never reads the
  algorithm of the tree's root: a subtree that starts at the root of the tree never
  gets a job, whatever the root carries.
\<close>

lemma tree_root_algorithm_not_read:
  assumes run: "recurse_with_new_subtree e jl n [] m = Returns (s, e', jl')"
  shows "s = - 1"
proof -
  obtain g ef al cs where n: "n = Node g ef al cs" by (cases n)
  obtain ok e1 where init: "ik_subtree_init e = (ok, e1)" by (cases "ik_subtree_init e") auto
  show ?thesis
  proof (cases ok)
    case False
    with run n init show ?thesis by simp
  next
    case True
    let ?st = "\<lparr>root = (n, []), leaves = []\<rparr>"
    from run n init True obtain t where
      each: "alloc_solvers_each e1 jl (Some ?st) cs [n] m = Returns t"
      by (cases "alloc_solvers_each e1 jl (Some ?st) cs [n] m") auto
    obtain r e2 jl2 st2 where t: "t = (r, e2, jl2, st2)" by (cases t) auto
    from partition_invariant(2) [OF each [unfolded t]]
    obtain st where st: "st2 = Some st" "root st = (n, [])" by auto
    then have "new_solver e2 st = (None, ik_log_printf IK_ERROR e2)"
      by (simp add: new_solver_def)
    with run n init True each t st show ?thesis by (cases "r = 0") simp_all
  qed
qed

subsection \<open>The status of a rebuild\<close>

lemma mark_chain_status:
  assumes "mark_chain e marked node c = Some r"
  shows "fst r = 0 \<or> fst r = - 1"
proof (rule mark_chain.raw_induct [where P = "\<lambda>e marked node c r. fst r = 0 \<or> fst r = - 1", OF _ assms])
  fix f :: "env \<Rightarrow> marks \<Rightarrow> nodeptr \<Rightarrow> int \<Rightarrow> (int \<times> env \<times> marks) option"
    and e :: env and marked :: marks and node :: nodeptr and c :: int and r :: "int \<times> env \<times> marks"
  assume IH: "\<And>e marked node c r. f e marked node c = Some r \<Longrightarrow> fst r = 0 \<or> fst r = - 1"
  assume body: "(let idx = mark_idx c node; new_mark = lookup_mark ! unat idx
      in if idx \<in> {0, 1, 8, 9} then Some (- 1, ik_log_printf IK_FATAL e, marked)
         else
           (case store_mark (if idx \<in> {10, 11, 12} then ik_log_printf IK_WARN e else e)
                   marked (guid (fst node)) new_mark of
              (stored, e1, marked1) \<Rightarrow>
                if \<not> stored then Some (- 1, e1, marked1)
                else if c = 0 \<or> parent node = None then Some (0, e1, marked1)
                else f e1 marked1 node c)) = Some r"
  then show "fst r = 0 \<or> fst r = - 1"
    by (auto simp: Let_def split: if_splits prod.splits dest: IH simp del: insert_iff)
qed

lemma mark_nodes_status:
  "mark_nodes e marked es = Some (Returns (s, e', m')) \<Longrightarrow> s = 0 \<or> s = - 1"
proof (induction es arbitrary: e marked)
  case Nil
  then show ?case by simp
next
  case (Cons node rest)
  from Cons.prems obtain eff where eff: "effector (fst node) = Some eff"
    by (cases "effector (fst node)") auto
  let ?c = "if int (chain_length eff) \<noteq> 0 then int (chain_length eff) else - 1"
  from Cons.prems eff obtain r e1 m1 where ch: "mark_chain e marked node ?c = Some (r, e1, m1)"
    by (cases "mark_chain e marked node ?c") auto
  show ?case
  proof (cases "r = 0")
    case True
    with Cons.prems eff ch have "mark_nodes e1 m1 rest = Some (Returns (s, e', m'))" by simp
    then show ?thesis by (rule Cons.IH)
  next
    case False
    with Cons.prems eff ch show ?thesis by simp
  qed
qed

lemma update_status:
  assumes run: "ik_joblist_update rc e jl tree_root = Some (Returns (s, e', jl'))"
    and ok: "IK_OK rc = 0"
  shows "s \<in> {IK_OK rc, IK_ERR_OUT_OF_MEMORY rc, IK_ERR_NO_EFFECTORS_FOUND rc, - 1}"
proof -
  obtain ok1 e1 where vi: "vector_init e = (ok1, e1)" by (cases "vector_init e") auto
  obtain s0 e2 es where fa: "find_all_effector_nodes e1 [] tree_root [] = (s0, e2, es)"
    by (cases "find_all_effector_nodes e1 [] tree_root []") auto
  obtain ok3 e3 where bi: "btree_init e2 = (ok3, e3)" by (cases "btree_init e2") auto
  note unfold = update_unfold [OF vi fa bi, of rc jl]
  from find_all_result(1) [OF fa] have s0: "s0 = 0 \<or> s0 = - 1" by simp
  show ?thesis
  proof (cases "ok1 \<and> s0 = 0 \<and> es \<noteq> [] \<and> ok3")
    case False
    with run ok s0 show ?thesis unfolding unfold by (auto split: if_splits)
  next
    case True
    show ?thesis
    proof (cases "mark_nodes e3 Map.empty es")
      case None
      with run ok True show ?thesis unfolding unfold by simp
    next
      case (Some out)
      show ?thesis
      proof (cases out)
        case Crashed
        with run ok True Some show ?thesis unfolding unfold by simp
      next
        case (Returns t)
        obtain s1 e4 m where t: "t = (s1, e4, m)" by (cases t) auto
        from mark_nodes_status [OF Some [unfolded Returns t]] have s1: "s1 = 0 \<or> s1 = - 1" .
        show ?thesis
        proof (cases "alloc_solvers e4 (jl\<lparr>solvers := []\<rparr>) None tree_root [] m")
          case Crashed
          with run ok True Some Returns t s1 show ?thesis
            unfolding unfold by (auto split: if_splits)
        next
          case (Returns u)
          obtain s2 e5 jl2 c2 where u: "u = (s2, e5, jl2, c2)" by (cases u) auto
          from partition_invariant(1) [OF Returns [unfolded u]] have "s2 = 0 \<or> s2 = - 1" by simp
          with run ok True Some \<open>out = Returns t\<close> t s1 Returns u show ?thesis
            unfolding unfold by (auto split: if_splits)
        qed
      qed
    qed
  qed
qed

text \<open>
  Claim C5, as amended. The marking pass and the partitioning pass return \<open>0\<close> or
  \<open>-1\<close> and nothing else, whatever made them fail, and \<open>ik_joblist_update\<close> returns
  one of four values: \<open>IK_OK\<close>, \<open>IK_ERR_OUT_OF_MEMORY\<close>, \<open>IK_ERR_NO_EFFECTORS_FOUND\<close>, or
  the \<open>-1\<close> of its passes. A leaf without effector and a subtree without algorithm
  have no status of their own.
\<close>

theorem status_values:
  "(mark_nodes ea marked es = Some (Returns (s1, e1, m1)) \<longrightarrow> s1 = 0 \<or> s1 = - 1) \<and>
   (alloc_solvers eb jlb cur n anc m = Returns (s2, e2, jl2, cur2) \<longrightarrow> s2 = 0 \<or> s2 = - 1) \<and>
   (IK_OK rc = 0 \<and> ik_joblist_update rc ec jlc tree_root = Some (Returns (s3, e3, jl3)) \<longrightarrow>
      s3 \<in> {IK_OK rc, IK_ERR_OUT_OF_MEMORY rc, IK_ERR_NO_EFFECTORS_FOUND rc, - 1})"
  using mark_nodes_status [of ea marked es s1 e1 m1]
    partition_invariant(1) [of eb jlb cur n anc m s2 e2 jl2 cur2]
    update_status [of rc ec jlc tree_root s3 e3 jl3]
  by blast

theorem status_values_witness:
  "mark_nodes \<lparr>failures = [True], logged = []\<rparr> Map.empty
     [(Node 0 (Some \<lparr>chain_length = 0\<rparr>) None [], [])] =
     Some (Returns (- 1, \<lparr>failures = [], logged = [IK_OUT_OF_MEMORY]\<rparr>, Map.empty)) \<and>
   alloc_solvers \<lparr>failures = [], logged = []\<rparr> \<lparr>solvers = []\<rparr> None arm0 [] arm_marks =
     Returns (0, \<lparr>failures = [], logged = []\<rparr>, \<lparr>solvers = [arm_inner, arm_outer]\<rparr>, None) \<and>
   IK_OK \<lparr>IK_OK = 0, IK_ERR_OUT_OF_MEMORY = 1, IK_ERR_NO_EFFECTORS_FOUND = 2\<rparr> = 0 \<and>
   ik_joblist_update \<lparr>IK_OK = 0, IK_ERR_OUT_OF_MEMORY = 1, IK_ERR_NO_EFFECTORS_FOUND = 2\<rparr>
     \<lparr>failures = [False, False, False, True], logged = []\<rparr> \<lparr>solvers = []\<rparr>
     (Node 0 (Some \<lparr>chain_length = 0\<rparr>) None []) =
     Some (Returns (- 1, \<lparr>failures = [], logged = [IK_OUT_OF_MEMORY]\<rparr>, \<lparr>solvers = []\<rparr>)) \<and>
   ((- 1 :: int) = 0 \<or> (- 1 :: int) = - 1) \<and> ((0 :: int) = 0 \<or> (0 :: int) = - 1) \<and>
   (- 1 :: int) \<in> {0, 1, 2, - 1}"
proof -
  have m: "mark_nodes \<lparr>failures = [True], logged = []\<rparr> Map.empty
     [(Node 0 (Some \<lparr>chain_length = 0\<rparr>) None [], [])] =
     Some (Returns (- 1, \<lparr>failures = [], logged = [IK_OUT_OF_MEMORY]\<rparr>, Map.empty))"
    using mark_chain_root [of "(Node 0 (Some \<lparr>chain_length = 0\<rparr>) None [], [])" Map.empty
      "\<lparr>failures = [True], logged = []\<rparr>" "- 1"]
    by (simp add: has_effector_def allocate_def ik_log_out_of_memory_def)
  have a: "alloc_solvers \<lparr>failures = [], logged = []\<rparr> \<lparr>solvers = []\<rparr> None arm0 [] arm_marks =
     Returns (0, \<lparr>failures = [], logged = []\<rparr>, \<lparr>solvers = [arm_inner, arm_outer]\<rparr>, None)"
    by code_simp
  have u: "ik_joblist_update \<lparr>IK_OK = 0, IK_ERR_OUT_OF_MEMORY = 1, IK_ERR_NO_EFFECTORS_FOUND = 2\<rparr>
     \<lparr>failures = [False, False, False, True], logged = []\<rparr> \<lparr>solvers = []\<rparr>
     (Node 0 (Some \<lparr>chain_length = 0\<rparr>) None []) =
     Some (Returns (- 1, \<lparr>failures = [], logged = [IK_OUT_OF_MEMORY]\<rparr>, \<lparr>solvers = []\<rparr>))"
    by code_simp
  from status_values
    [where ea = "\<lparr>failures = [True], logged = []\<rparr>" and marked = Map.empty
       and es = "[(Node 0 (Some \<lparr>chain_length = 0\<rparr>) None [], [])]"
       and ?s1.0 = "- 1" and ?e1.0 = "\<lparr>failures = [], logged = [IK_OUT_OF_MEMORY]\<rparr>"
       and ?m1.0 = Map.empty
       and eb = "\<lparr>failures = [], logged = []\<rparr>" and jlb = "\<lparr>solvers = []\<rparr>" and cur = None
       and n = arm0 and anc = "[]" and m = arm_marks
       and ?s2.0 = 0 and ?e2.0 = "\<lparr>failures = [], logged = []\<rparr>"
       and ?jl2.0 = "\<lparr>solvers = [arm_inner, arm_outer]\<rparr>" and ?cur2.0 = None
       and rc = "\<lparr>IK_OK = 0, IK_ERR_OUT_OF_MEMORY = 1, IK_ERR_NO_EFFECTORS_FOUND = 2\<rparr>"
       and ec = "\<lparr>failures = [False, False, False, True], logged = []\<rparr>"
       and jlc = "\<lparr>solvers = []\<rparr>" and tree_root = "Node 0 (Some \<lparr>chain_length = 0\<rparr>) None []"
       and ?s3.0 = "- 1" and ?e3.0 = "\<lparr>failures = [], logged = [IK_OUT_OF_MEMORY]\<rparr>"
       and ?jl3.0 = "\<lparr>solvers = []\<rparr>"]
    m a u
  show ?thesis by simp
qed

text \<open>
  The claim as it was stated gives the leaf without effector a status other than that of
  a failed allocation in the marking pass, and the subtree without algorithm a status
  other than that of a failed allocation. The marking loop returns \<open>-1\<close> for a failed
  insertion and for a leaf without effector; \<open>alloc_solvers\<close> returns \<open>-1\<close> for a
  subtree without algorithm and for a subtree that could not be initialised.
\<close>

theorem failures_share_a_status:
  "map_option (\<lambda>(s, e, m). (s, e))
     (mark_chain \<lparr>failures = [True], logged = []\<rparr> Map.empty
        (Node 0 (Some \<lparr>chain_length = 0\<rparr>) None [], []) (- 1)) =
     Some (- 1, \<lparr>failures = [], logged = [IK_OUT_OF_MEMORY]\<rparr>) \<and>
   map_option (\<lambda>(s, e, m). (s, e))
     (mark_chain \<lparr>failures = [], logged = []\<rparr> Map.empty (Node 0 None None [], []) (- 1)) =
     Some (- 1, \<lparr>failures = [], logged = [IK_FATAL]\<rparr>) \<and>
   alloc_solvers \<lparr>failures = [], logged = []\<rparr> \<lparr>solvers = []\<rparr> None (Node 0 None None []) []
     [0 \<mapsto> MARK_BEGIN] =
     Returns (- 1, \<lparr>failures = [], logged = [IK_ERROR]\<rparr>, \<lparr>solvers = []\<rparr>, None) \<and>
   alloc_solvers \<lparr>failures = [True], logged = []\<rparr> \<lparr>solvers = []\<rparr> None (Node 0 None None []) []
     [0 \<mapsto> MARK_BEGIN] =
     Returns (- 1, \<lparr>failures = [], logged = []\<rparr>, \<lparr>solvers = []\<rparr>, None)"
  by code_simp

end
